theory Spec2Isabelle
  imports Main
begin


section \<open>JavaScript values\<close>

text \<open>
  The values that flow through the reactive core.  Objects, arrays and class instances are
  references (\<open>JRef\<close>); numbers are abstracted to the integers plus \<open>NaN\<close>, which is the
  only distinction the code under study makes between numbers.
\<close>

datatype jsval = JUndefined | JNull | JBool bool | JNum int | JNaN | JStr string | JRef nat

text \<open>The operator \<open>===\<close>: \<open>NaN\<close> is the one value that is not equal to itself.\<close>

definition strict_eq :: "jsval \<Rightarrow> jsval \<Rightarrow> bool" where
  "strict_eq a b = (a = b \<and> a \<noteq> JNaN)"

text \<open>
  Modelled from the spec: the helpers \<open>isUndef\<close>, \<open>isDef\<close>, \<open>isTrue\<close> and \<open>isObject\<close> of
  \<open>shared/util\<close> are imported by the sources but are not part of them.  The spec speaks of
  "definedness" of a value and of a value being "an object/container".
\<close>

definition isUndef :: "jsval \<Rightarrow> bool" where
  "isUndef v = (v = JUndefined \<or> v = JNull)"

definition isDef :: "jsval \<Rightarrow> bool" where
  "isDef v = (v \<noteq> JUndefined \<and> v \<noteq> JNull)"

definition isTrue :: "jsval \<Rightarrow> bool" where
  "isTrue v = (v = JBool True)"

definition isObject :: "jsval \<Rightarrow> bool" where
  "isObject v = (case v of JRef r \<Rightarrow> True | _ \<Rightarrow> False)"

text \<open>
  Modelled from the spec: \<open>remove(arr, item)\<close> of \<open>shared/util\<close> is imported by the sources
  but is not part of them.  The spec says that unsubscribing a node "removes it" from the
  subscriber list; one occurrence of the item is taken out, the first one.
\<close>

definition removeItem :: "'a list \<Rightarrow> 'a \<Rightarrow> 'a list" where
  "removeItem arr item = remove1 item arr"

section \<open>Dependency nodes and watchers\<close>

text \<open>
  A \<open>Dep\<close> and a \<open>Watcher\<close> are objects whose \<open>id\<close> field is drawn from a module-level
  counter (\<open>uid++\<close> for \<open>Dep\<close>, \<open>++uid\<close> for \<open>Watcher\<close>), so the id determines the object and
  the model names each object by its id.  \<open>depIds\<close> and \<open>newDepIds\<close> are the two \<open>Set\<close>s
  of dep ids; \<open>deps\<close> and \<open>newDeps\<close> are the two arrays of \<open>Dep\<close>s.  \<open>cbCalls\<close> records
  the argument pairs \<open>(value, oldValue)\<close> of every invocation of \<open>cb\<close>, oldest first.
\<close>

record watcher =
  vm :: nat
  deep :: bool
  user :: bool
  lazy :: bool
  sync :: bool
  dirty :: bool
  active :: bool
  deps :: "nat list"
  newDeps :: "nat list"
  depIds :: "nat set"
  newDepIds :: "nat set"
  wvalue :: jsval
  cbCalls :: "(jsval \<times> jsval) list"

text \<open>
  The state of the modules \<open>dep.js\<close> and \<open>watcher.js\<close>: the two \<open>uid\<close> counters, the \<open>subs\<close>
  array of every \<open>Dep\<close>, every \<open>Watcher\<close>, \<open>Dep.target\<close> with the \<open>targetStack\<close>, and of each
  component instance the fields \<open>_watchers\<close>, \<open>_watcher\<close> and \<open>_isBeingDestroyed\<close> that the
  watcher code touches.
\<close>

record state =
  depUid :: nat
  watcherUid :: nat
  subs :: "nat \<Rightarrow> nat list"
  watchers :: "nat \<Rightarrow> watcher"
  target :: "nat option"
  targetStack :: "nat option list"
  vmWatchers :: "nat \<Rightarrow> nat list"
  vmWatcher :: "nat \<Rightarrow> nat option"
  vmIsBeingDestroyed :: "nat \<Rightarrow> bool"

definition noWatcher :: watcher where
  "noWatcher = \<lparr>vm = 0, deep = False, user = False, lazy = False, sync = False,
     dirty = False, active = False, deps = [], newDeps = [], depIds = {}, newDepIds = {},
     wvalue = JUndefined, cbCalls = []\<rparr>"

definition initState :: state where
  "initState = \<lparr>depUid = 0, watcherUid = 0, subs = (\<lambda>d. []), watchers = (\<lambda>w. noWatcher),
     target = None, targetStack = [], vmWatchers = (\<lambda>v. []), vmWatcher = (\<lambda>v. None),
     vmIsBeingDestroyed = (\<lambda>v. False)\<rparr>"

subsection \<open>Dep\<close>

text \<open>\<open>new Dep()\<close>: \<open>this.id = uid++; this.subs = []\<close>.  Returns the new id.\<close>

definition newDep :: "state \<Rightarrow> state \<times> nat" where
  "newDep s = (s\<lparr>depUid := depUid s + 1, subs := (subs s)(depUid s := [])\<rparr>, depUid s)"

definition addSub :: "nat \<Rightarrow> nat \<Rightarrow> state \<Rightarrow> state" where
  "addSub d w s = s\<lparr>subs := (subs s)(d := subs s d @ [w])\<rparr>"

definition removeSub :: "nat \<Rightarrow> nat \<Rightarrow> state \<Rightarrow> state" where
  "removeSub d w s = s\<lparr>subs := (subs s)(d := removeItem (subs s d) w)\<rparr>"

definition pushTarget :: "nat option \<Rightarrow> state \<Rightarrow> state" where
  "pushTarget t s = s\<lparr>targetStack := targetStack s @ [t], target := t\<rparr>"

text \<open>
  \<open>targetStack.pop(); Dep.target = targetStack[targetStack.length - 1]\<close>: popping an empty
  array does nothing, and reading index \<open>-1\<close> gives \<open>undefined\<close>.
\<close>

definition popTarget :: "state \<Rightarrow> state" where
  "popTarget s =
     (let st = butlast (targetStack s)
      in s\<lparr>targetStack := st, target := (if st = [] then None else last st)\<rparr>)"

subsection \<open>Watcher: collecting dependencies\<close>

definition updW :: "nat \<Rightarrow> (watcher \<Rightarrow> watcher) \<Rightarrow> state \<Rightarrow> state" where
  "updW w f s = s\<lparr>watchers := (watchers s)(w := f (watchers s w))\<rparr>"

definition addDep :: "nat \<Rightarrow> nat \<Rightarrow> state \<Rightarrow> state" where
  "addDep w d s =
     (if d \<notin> newDepIds (watchers s w) then
        (let s1 = updW w (\<lambda>r. r\<lparr>newDepIds := insert d (newDepIds r),
                                 newDeps := newDeps r @ [d]\<rparr>) s
         in if d \<notin> depIds (watchers s1 w) then addSub d w s1 else s1)
      else s)"

text \<open>\<open>Dep.depend\<close>: \<open>if (Dep.target) Dep.target.addDep(this)\<close>.\<close>

definition depend :: "nat \<Rightarrow> state \<Rightarrow> state" where
  "depend d s = (case target s of None \<Rightarrow> s | Some w \<Rightarrow> addDep w d s)"

text \<open>
  \<open>cleanupDeps\<close>: the loop \<open>while (i--)\<close> walks \<open>this.deps\<close> from the last entry to the first;
  then the two id sets and the two arrays are swapped and the new ones emptied.
\<close>

definition cleanupDeps :: "nat \<Rightarrow> state \<Rightarrow> state" where
  "cleanupDeps w s =
     (let s1 = fold (\<lambda>d t. if d \<notin> newDepIds (watchers t w) then removeSub d w t else t)
                 (rev (deps (watchers s w))) s
      in updW w (\<lambda>r. r\<lparr>depIds := newDepIds r, newDepIds := {},
                        deps := newDeps r, newDeps := []\<rparr>) s1)"

text \<open>
  \<open>Watcher.teardown\<close>: \<open>while (i--) this.deps[i].removeSub(this)\<close> walks \<open>this.deps\<close> and no
  other list.
\<close>

definition teardown :: "nat \<Rightarrow> state \<Rightarrow> state" where
  "teardown w s =
     (if active (watchers s w) then
        (let v = vm (watchers s w);
             s1 = (if \<not> vmIsBeingDestroyed s v
                   then s\<lparr>vmWatchers := (vmWatchers s)(v := removeItem (vmWatchers s v) w)\<rparr>
                   else s);
             s2 = fold (\<lambda>d t. removeSub d w t) (rev (deps (watchers s1 w))) s1
         in updW w (\<lambda>r. r\<lparr>active := False\<rparr>) s2)
      else s)"

subsection \<open>What user code does to the dependency graph\<close>

text \<open>
  A getter, a traversal or a callback is user code; what it does to the dependency graph
  is the sequence of calls it makes into the two modules: \<open>dep.depend()\<close> from a reactive
  getter (\<open>Touch\<close>), \<open>pushTarget\<close> and \<open>popTarget\<close> (by the \<open>get()\<close> of another watcher that
  runs inside it, or by a lifecycle hook, which pushes \<open>undefined\<close>), \<open>cleanupDeps()\<close> (at
  the end of such a \<open>get()\<close>) and \<open>teardown()\<close> of a watcher.  Any sequence of these calls
  is admitted: evaluations of other watchers nested to any depth, an evaluation that is
  left by an exception before it pops its target, a watcher torn down while it is being
  evaluated.
\<close>

datatype ev = Touch nat | Push "nat option" | Pop | Cleanup nat | Teardown nat

fun runEv :: "ev \<Rightarrow> state \<Rightarrow> state" where
  "runEv (Touch d) s = depend d s"
| "runEv (Push t) s = pushTarget t s"
| "runEv Pop s = popTarget s"
| "runEv (Cleanup w) s = cleanupDeps w s"
| "runEv (Teardown w) s = teardown w s"

definition runEvs :: "ev list \<Rightarrow> state \<Rightarrow> state" where
  "runEvs es s = fold runEv es s"

text \<open>How a piece of code ends: with a value, or with an exception that is thrown on.\<close>

datatype 'a completion = Normal 'a | Throw

text \<open>
  \<open>traverse(val)\<close> returns at once unless \<open>val\<close> is an array or an object; otherwise it
  reads the properties below \<open>val\<close>: \<open>reads\<close> is the sequence of calls those getters make,
  and \<open>tres\<close> says whether one of them throws, which ends the traversal.
\<close>

definition traverse :: "jsval \<Rightarrow> ev list \<Rightarrow> unit completion \<Rightarrow> ev list \<times> unit completion" where
  "traverse val reads tres = (if isObject val then (reads, tres) else ([], Normal ()))"

subsection \<open>Watcher: evaluation\<close>

text \<open>
  \<open>Watcher.get\<close>.  \<open>calls\<close> is what \<open>this.getter.call(vm, vm)\<close> does to the dependency graph
  and \<open>res\<close> how it ends.  When the getter throws, \<open>value\<close> is still \<open>undefined\<close> in the
  \<open>finally\<close> block; the exception is swallowed by \<open>handleError\<close> for a \<open>user\<close> watcher and
  thrown on otherwise, after the \<open>finally\<close> block has run.  \<open>traverse(value)\<close> is the first
  statement of the \<open>finally\<close> block: when it throws, \<open>popTarget()\<close> and \<open>cleanupDeps()\<close> are
  not reached and the exception leaves \<open>get\<close>.
\<close>

definition get :: "nat \<Rightarrow> ev list \<Rightarrow> jsval completion \<Rightarrow> ev list \<Rightarrow> unit completion \<Rightarrow> state
    \<Rightarrow> state \<times> jsval completion" where
  "get w calls res reads tres s =
     (let s1 = pushTarget (Some w) s;
          s2 = runEvs calls s1;
          val = (case res of Normal v \<Rightarrow> v | Throw \<Rightarrow> JUndefined);
          (walked, tc) = (if deep (watchers s2 w) then traverse val reads tres
                          else ([], Normal ()));
          s3 = runEvs walked s2
      in case tc of
           Throw \<Rightarrow> (s3, Throw)
         | Normal u \<Rightarrow>
             (cleanupDeps w (popTarget s3),
              case res of
                Normal v \<Rightarrow> Normal v
              | Throw \<Rightarrow> if user (watchers s2 w) then Normal val else Throw))"

text \<open>
  \<open>Watcher.run\<close>.  The callback is user code; the model records that it is called and with
  which arguments.
\<close>

definition run :: "nat \<Rightarrow> ev list \<Rightarrow> jsval completion \<Rightarrow> ev list \<Rightarrow> unit completion \<Rightarrow> state
    \<Rightarrow> state \<times> unit completion" where
  "run w calls res reads tres s =
     (if active (watchers s w) then
        (case get w calls res reads tres s of
           (s1, Throw) \<Rightarrow> (s1, Throw)
         | (s1, Normal val) \<Rightarrow>
             (if \<not> strict_eq val (wvalue (watchers s1 w)) \<or> isObject val
                 \<or> deep (watchers s1 w)
              then (updW w (\<lambda>r. r\<lparr>wvalue := val,
                                    cbCalls := cbCalls r @ [(val, wvalue r)]\<rparr>) s1, Normal ())
              else (s1, Normal ())))
      else (s, Normal ()))"

definition evaluate :: "nat \<Rightarrow> ev list \<Rightarrow> jsval completion \<Rightarrow> ev list \<Rightarrow> unit completion
    \<Rightarrow> state \<Rightarrow> state \<times> unit completion" where
  "evaluate w calls res reads tres s =
     (case get w calls res reads tres s of
        (s1, Throw) \<Rightarrow> (s1, Throw)
      | (s1, Normal val) \<Rightarrow> (updW w (\<lambda>r. r\<lparr>wvalue := val, dirty := False\<rparr>) s1, Normal ()))"

text \<open>\<open>Watcher.depend\<close>: \<open>while (i--) this.deps[i].depend()\<close>.\<close>

definition dependW :: "nat \<Rightarrow> state \<Rightarrow> state" where
  "dependW w s = fold depend (rev (deps (watchers s w))) s"

text \<open>
  \<open>Watcher.update\<close>.  \<open>runW\<close> is \<open>this.run()\<close> with the getter of the watcher supplied;
  \<open>queueWatcher\<close> belongs to the scheduler, which is not part of the sources, and is a
  parameter.
\<close>

definition update :: "(nat \<Rightarrow> state \<Rightarrow> state \<times> unit completion)
    \<Rightarrow> (nat \<Rightarrow> state \<Rightarrow> state \<times> unit completion)
    \<Rightarrow> nat \<Rightarrow> state \<Rightarrow> state \<times> unit completion" where
  "update runW queueWatcher w s =
     (if lazy (watchers s w) then (updW w (\<lambda>r. r\<lparr>dirty := True\<rparr>) s, Normal ())
      else if sync (watchers s w) then runW w s
      else queueWatcher w s)"

text \<open>
  The constructor.  \<open>opts\<close> is the \<open>options\<close> argument (\<open>deep\<close>, \<open>user\<close>, \<open>lazy\<close>, \<open>sync\<close>), absent
  when \<open>None\<close>.  The new watcher has the id \<open>++uid\<close>; it is pushed on \<open>vm._watchers\<close> first and
  evaluated last, unless it is lazy.
\<close>

definition newWatcher :: "nat \<Rightarrow> (bool \<times> bool \<times> bool \<times> bool) option \<Rightarrow> bool
    \<Rightarrow> ev list \<Rightarrow> jsval completion \<Rightarrow> ev list \<Rightarrow> unit completion \<Rightarrow> state
    \<Rightarrow> state \<times> nat completion" where
  "newWatcher v opts isRenderWatcher calls res reads tres s =
     (let w = watcherUid s + 1;
          (oDeep, oUser, oLazy, oSync) =
             (case opts of Some p \<Rightarrow> p | None \<Rightarrow> (False, False, False, False));
          s1 = (if isRenderWatcher then s\<lparr>vmWatcher := (vmWatcher s)(v := Some w)\<rparr> else s);
          s2 = s1\<lparr>vmWatchers := (vmWatchers s1)(v := vmWatchers s1 v @ [w])\<rparr>;
          s3 = s2\<lparr>watcherUid := w,
                  watchers := (watchers s2)(w :=
                    \<lparr>vm = v, deep = oDeep, user = oUser, lazy = oLazy, sync = oSync,
                     dirty = oLazy, active = True, deps = [], newDeps = [], depIds = {},
                     newDepIds = {}, wvalue = JUndefined, cbCalls = []\<rparr>)\<rparr>
      in if oLazy then (s3, Normal w)
         else (case get w calls res reads tres s3 of
                 (s4, Throw) \<Rightarrow> (s4, Throw)
               | (s4, Normal val) \<Rightarrow> (updW w (\<lambda>r. r\<lparr>wvalue := val\<rparr>) s4, Normal w)))"

subsection \<open>Dep.notify\<close>

text \<open>
  The loop \<open>for (i = 0; i < l; i++) subs[i].update()\<close> over the copy \<open>subs\<close>.  \<open>upd\<close> is
  \<open>update\<close> of the watcher; it may change the state in any way, the subscriber lists
  included, and it may throw, which ends the loop.  The result lists the watchers whose
  \<open>update\<close> was called, in the order of the calls.
\<close>

fun notifyLoop :: "(nat \<Rightarrow> state \<Rightarrow> state \<times> unit completion) \<Rightarrow> nat list \<Rightarrow> state
    \<Rightarrow> state \<times> nat list \<times> unit completion" where
  "notifyLoop upd [] s = (s, [], Normal ())"
| "notifyLoop upd (w # ws) s =
     (case upd w s of
        (s1, Throw) \<Rightarrow> (s1, [w], Throw)
      | (s1, Normal u) \<Rightarrow>
          (case notifyLoop upd ws s1 of (s2, called, c) \<Rightarrow> (s2, w # called, c)))"

text \<open>
  \<open>production\<close> is \<open>process.env.NODE_ENV === 'production'\<close> and \<open>async\<close> is \<open>config.async\<close>.
  The comparison function \<open>(a, b) => a.id - b.id\<close> orders watchers by ascending id.
\<close>

definition notify :: "bool \<Rightarrow> bool \<Rightarrow> (nat \<Rightarrow> state \<Rightarrow> state \<times> unit completion)
    \<Rightarrow> nat \<Rightarrow> state \<Rightarrow> state \<times> nat list \<times> unit completion" where
  "notify production async upd d s =
     (let subs0 = subs s d;
          subs1 = (if \<not> production \<and> \<not> async then sort subs0 else subs0)
      in notifyLoop upd subs1 s)"

section \<open>Invariants of the dependency graph\<close>

text \<open>
  Four facts hold of the graph at every moment: no subscriber list holds a watcher twice;
  a watcher stands in the list of a dep only if the id of the dep is in one of its two id
  sets; the id sets are the sets of the entries of the two arrays, which hold no dep
  twice; and a watcher that has not been torn down stands in the list of every dep whose
  id is in one of its id sets.
\<close>


definition subsDistinct :: "state \<Rightarrow> bool" where
  "subsDistinct s \<longleftrightarrow> (\<forall>d. distinct (subs s d))"

definition subsKnown :: "state \<Rightarrow> bool" where
  "subsKnown s \<longleftrightarrow>
     (\<forall>d w. w \<in> set (subs s d) \<longrightarrow> d \<in> depIds (watchers s w) \<union> newDepIds (watchers s w))"

definition idSetsOk :: "state \<Rightarrow> bool" where
  "idSetsOk s \<longleftrightarrow>
     (\<forall>w. depIds (watchers s w) = set (deps (watchers s w)) \<and>
          newDepIds (watchers s w) = set (newDeps (watchers s w)) \<and>
          distinct (deps (watchers s w)) \<and> distinct (newDeps (watchers s w)))"

definition activeSubscribed :: "state \<Rightarrow> bool" where
  "activeSubscribed s \<longleftrightarrow>
     (\<forall>w. active (watchers s w) \<longrightarrow>
          (\<forall>d \<in> depIds (watchers s w) \<union> newDepIds (watchers s w). w \<in> set (subs s d)))"

definition tracked :: "state \<Rightarrow> bool" where
  "tracked s \<longleftrightarrow> subsDistinct s \<and> subsKnown s \<and> idSetsOk s \<and> activeSubscribed s"

lemma addDep_subs:
  "subs (addDep w d s) d' =
     (if d' = d \<and> d \<notin> newDepIds (watchers s w) \<and> d \<notin> depIds (watchers s w)
      then subs s d @ [w] else subs s d')"
  by (simp add: addDep_def updW_def addSub_def Let_def)

lemma addDep_watchers:
  "watchers (addDep w d s) w' =
     (if w' = w \<and> d \<notin> newDepIds (watchers s w)
      then (watchers s w)\<lparr>newDepIds := insert d (newDepIds (watchers s w)),
                           newDeps := newDeps (watchers s w) @ [d]\<rparr>
      else watchers s w')"
  by (simp add: addDep_def updW_def addSub_def Let_def)

lemma subsDistinct_addDep: "subsDistinct s \<Longrightarrow> subsKnown s \<Longrightarrow> subsDistinct (addDep w d s)"
  unfolding subsDistinct_def subsKnown_def by (auto simp: addDep_subs)

lemma subsKnown_addDep: "subsKnown s \<Longrightarrow> subsKnown (addDep w d s)"
  unfolding subsKnown_def by (auto simp: addDep_subs addDep_watchers)

lemma idSetsOk_addDep: "idSetsOk s \<Longrightarrow> idSetsOk (addDep w d s)"
  unfolding idSetsOk_def by (auto simp: addDep_watchers)

lemma activeSubscribed_addDep: "activeSubscribed s \<Longrightarrow> activeSubscribed (addDep w d s)"
  unfolding activeSubscribed_def by (auto simp: addDep_subs addDep_watchers)

lemma tracked_addDep: "tracked s \<Longrightarrow> tracked (addDep w d s)"
  by (simp add: tracked_def subsDistinct_addDep subsKnown_addDep idSetsOk_addDep activeSubscribed_addDep)


lemma tracked_depend: "tracked s \<Longrightarrow> tracked (depend d s)"
  by (simp add: depend_def tracked_addDep split: option.splits)

lemma tracked_pushTarget [simp]: "tracked (pushTarget t s) = tracked s"
  by (simp add: tracked_def pushTarget_def subsDistinct_def subsKnown_def idSetsOk_def
      activeSubscribed_def)

lemma tracked_popTarget [simp]: "tracked (popTarget s) = tracked s"
  by (simp add: tracked_def popTarget_def Let_def subsDistinct_def subsKnown_def idSetsOk_def
      activeSubscribed_def)

text \<open>The loops of \<open>cleanupDeps\<close> and \<open>teardown\<close> in closed form.\<close>

lemma fold_removeSub_watchers:
  "watchers (fold (\<lambda>d t. if P d t then removeSub d w t else t) ds s) = watchers s"
  by (induction ds arbitrary: s) (auto simp: removeSub_def)

lemma fold_removeSub_uids:
  "depUid (fold (\<lambda>d t. if P d t then removeSub d w t else t) ds s) = depUid s \<and>
   watcherUid (fold (\<lambda>d t. if P d t then removeSub d w t else t) ds s) = watcherUid s"
  by (induction ds arbitrary: s) (auto simp: removeSub_def)

lemma fold_removeSub_subs:
  assumes "\<And>d t. P d t = (d \<notin> N)"
  shows "subs (fold (\<lambda>d t. if P d t then removeSub d w t else t) ds s) d =
     (if d \<in> set ds \<and> d \<notin> N then ((remove1 w) ^^ (count_list ds d)) (subs s d) else subs s d)"
proof (induction ds arbitrary: s)
  case Nil
  then show ?case by simp
next
  case (Cons a ds)
  show ?case
    unfolding fold_simps Cons.IH
    by (auto simp: assms removeSub_def removeItem_def funpow_swap1 count_list_0_iff)
qed


lemma funpow_remove1_other: "x \<noteq> w \<Longrightarrow> x \<in> set (((remove1 w) ^^ n) xs) \<longleftrightarrow> x \<in> set xs"
  by (induction n) auto

lemma funpow_remove1_distinct: "distinct xs \<Longrightarrow> distinct (((remove1 w) ^^ n) xs)"
  by (induction n) auto

lemma funpow_remove1_subset: "x \<in> set (((remove1 w) ^^ n) xs) \<Longrightarrow> x \<in> set xs"
  by (induction n arbitrary: x) (auto dest: notin_set_remove1)

lemma funpow_remove1_gone: "distinct xs \<Longrightarrow> 0 < n \<Longrightarrow> w \<notin> set (((remove1 w) ^^ n) xs)"
  by (cases n) (auto simp: funpow_remove1_distinct)

lemma fold_removeSub_target:
  "targetStack (fold (\<lambda>d t. if P d t then removeSub d w t else t) ds s) = targetStack s \<and>
   target (fold (\<lambda>d t. if P d t then removeSub d w t else t) ds s) = target s"
  by (induction ds arbitrary: s) (auto simp: removeSub_def)

lemma cleanupDeps_target [simp]:
  "targetStack (cleanupDeps w s) = targetStack s" "target (cleanupDeps w s) = target s"
  by (simp_all add: cleanupDeps_def Let_def updW_def fold_removeSub_target)

lemma cleanupDeps_watchers:
  "watchers (cleanupDeps w s) w' =
     (if w' = w then (watchers s w)\<lparr>depIds := newDepIds (watchers s w), newDepIds := {},
                                    deps := newDeps (watchers s w), newDeps := []\<rparr>
      else watchers s w')"
  by (simp add: cleanupDeps_def Let_def updW_def fold_removeSub_watchers)

lemma fold_cleanup_fixed:
  "N = newDepIds (watchers s w) \<Longrightarrow>
   fold (\<lambda>d t. if d \<notin> newDepIds (watchers t w) then removeSub d w t else t) ds s =
   fold (\<lambda>d t. if d \<notin> N then removeSub d w t else t) ds s"
  by (induction ds arbitrary: s) (auto simp: removeSub_def)

lemma count_list_rev [simp]: "count_list (rev xs) x = count_list xs x"
  by (induction xs) auto

lemma cleanupDeps_subs:
  "subs (cleanupDeps w s) d =
     (if d \<in> set (deps (watchers s w)) \<and> d \<notin> newDepIds (watchers s w)
      then ((remove1 w) ^^ (count_list (deps (watchers s w)) d)) (subs s d) else subs s d)"
proof -
  have "subs (fold (\<lambda>d t. if d \<notin> newDepIds (watchers t w) then removeSub d w t else t)
                (rev (deps (watchers s w))) s) d =
     (if d \<in> set (rev (deps (watchers s w))) \<and> d \<notin> newDepIds (watchers s w)
      then ((remove1 w) ^^ (count_list (rev (deps (watchers s w))) d)) (subs s d) else subs s d)"
    by (subst fold_cleanup_fixed[OF refl]) (rule fold_removeSub_subs, simp)
  then show ?thesis by (simp add: cleanupDeps_def Let_def updW_def)
qed


lemma subsDistinct_cleanupDeps: "subsDistinct s \<Longrightarrow> subsDistinct (cleanupDeps w s)"
  unfolding subsDistinct_def by (simp add: cleanupDeps_subs funpow_remove1_distinct)

lemma idSetsOk_cleanupDeps: "idSetsOk s \<Longrightarrow> idSetsOk (cleanupDeps w s)"
  unfolding idSetsOk_def by (simp add: cleanupDeps_watchers)

lemma subsKnown_cleanupDeps:
  assumes "subsKnown s" "subsDistinct s" "idSetsOk s"
  shows "subsKnown (cleanupDeps w s)"
  unfolding subsKnown_def
proof (intro allI impI)
  fix d w'
  assume m: "w' \<in> set (subs (cleanupDeps w s) d)"
  have old: "w' \<in> set (subs s d)"
    using m by (auto simp: cleanupDeps_subs split: if_splits dest: funpow_remove1_subset)
  then have k: "d \<in> depIds (watchers s w') \<union> newDepIds (watchers s w')"
    using assms(1) by (auto simp: subsKnown_def)
  show "d \<in> depIds (watchers (cleanupDeps w s) w') \<union> newDepIds (watchers (cleanupDeps w s) w')"
  proof (cases "w' = w")
    case False
    then show ?thesis using k by (simp add: cleanupDeps_watchers)
  next
    case True
    have "d \<in> newDepIds (watchers s w)"
    proof (rule ccontr)
      assume n: "d \<notin> newDepIds (watchers s w)"
      then have "d \<in> set (deps (watchers s w))"
        using k True assms(3) by (auto simp: idSetsOk_def)
      moreover have "distinct (subs s d)" using assms(2) by (simp add: subsDistinct_def)
      moreover have "0 < count_list (deps (watchers s w)) d"
        using calculation(1) by (metis count_list_0_iff gr0I)
      ultimately have "w \<notin> set (subs (cleanupDeps w s) d)"
        using n by (simp add: cleanupDeps_subs funpow_remove1_gone)
      then show False using m True by simp
    qed
    then show ?thesis using True by (simp add: cleanupDeps_watchers)
  qed
qed

lemma activeSubscribed_cleanupDeps:
  assumes "activeSubscribed s"
  shows "activeSubscribed (cleanupDeps w s)"
  unfolding activeSubscribed_def
proof (intro allI impI ballI)
  fix w' d
  assume a: "active (watchers (cleanupDeps w s) w')"
    and d: "d \<in> depIds (watchers (cleanupDeps w s) w') \<union> newDepIds (watchers (cleanupDeps w s) w')"
  show "w' \<in> set (subs (cleanupDeps w s) d)"
  proof (cases "w' = w")
    case True
    then have "d \<in> newDepIds (watchers s w)" "active (watchers s w)"
      using a d by (auto simp: cleanupDeps_watchers)
    then show ?thesis using assms True
      by (auto simp: activeSubscribed_def cleanupDeps_subs)
  next
    case False
    then have "w' \<in> set (subs s d)"
      using a d assms by (auto simp: activeSubscribed_def cleanupDeps_watchers)
    then show ?thesis using False by (simp add: cleanupDeps_subs funpow_remove1_other)
  qed
qed

lemma tracked_cleanupDeps: "tracked s \<Longrightarrow> tracked (cleanupDeps w s)"
  by (simp add: tracked_def subsDistinct_cleanupDeps subsKnown_cleanupDeps idSetsOk_cleanupDeps
      activeSubscribed_cleanupDeps)

lemma notifyLoop_called:
  "\<exists>rest. ws = fst (snd (notifyLoop upd ws s)) @ rest \<and>
      (snd (snd (notifyLoop upd ws s)) = Normal () \<longrightarrow> rest = [])"
proof (induction ws arbitrary: s)
  case Nil
  then show ?case by simp
next
  case (Cons w ws)
  obtain s1 c where u: "upd w s = (s1, c)" by (cases "upd w s")
  show ?case
  proof (cases c)
    case Throw
    then show ?thesis using u by simp
  next
    case (Normal x)
    obtain s2 called c2 where l: "notifyLoop upd ws s1 = (s2, called, c2)"
      by (cases "notifyLoop upd ws s1") auto
    from Cons.IH[of s1] show ?thesis using u Normal l by simp
  qed
qed

lemma notifyLoop_subset: "set (fst (snd (notifyLoop upd ws s))) \<subseteq> set ws"
  using notifyLoop_called[of ws upd s] by (metis set_append Un_upper1)

subsection \<open>Facts about teardown\<close>

lemma fold_removeSub_other:
  "vmWatchers (fold (\<lambda>d t. if P d t then removeSub d w t else t) ds s) = vmWatchers s"
  by (induction ds arbitrary: s) (auto simp: removeSub_def)

lemma teardown_watchers:
  "watchers (teardown w s) w' =
     (if w' = w \<and> active (watchers s w) then (watchers s w)\<lparr>active := False\<rparr>
      else watchers s w')"
  using fold_removeSub_watchers[of "\<lambda>d t. True" w]
  by (simp add: teardown_def Let_def updW_def)

lemma teardown_subs:
  "subs (teardown w s) d =
     (if active (watchers s w) \<and> d \<in> set (deps (watchers s w))
      then ((remove1 w) ^^ (count_list (deps (watchers s w)) d)) (subs s d) else subs s d)"
  using fold_removeSub_subs[of "\<lambda>d t. True" "{}" w]
  by (simp add: teardown_def Let_def updW_def)

lemma teardown_fields [simp]:
  "depUid (teardown w s) = depUid s" "watcherUid (teardown w s) = watcherUid s"
  "target (teardown w s) = target s" "targetStack (teardown w s) = targetStack s"
  using fold_removeSub_uids[of "\<lambda>d t. True" w] fold_removeSub_target[of "\<lambda>d t. True" w]
  by (simp_all add: teardown_def Let_def updW_def)


lemma tracked_teardown:
  assumes "tracked s"
  shows "tracked (teardown w s)"
proof -
  have 1: "subsDistinct (teardown w s)"
    using assms by (simp add: tracked_def subsDistinct_def teardown_subs funpow_remove1_distinct)
  have 2: "subsKnown (teardown w s)"
    using assms unfolding tracked_def subsKnown_def
    by (auto simp: teardown_subs teardown_watchers split: if_splits dest: funpow_remove1_subset)
  have 3: "idSetsOk (teardown w s)"
    using assms unfolding tracked_def idSetsOk_def by (simp add: teardown_watchers)
  have 4: "activeSubscribed (teardown w s)"
    using assms unfolding tracked_def activeSubscribed_def
    by (auto simp: teardown_subs teardown_watchers funpow_remove1_other split: if_splits)
  show ?thesis using 1 2 3 4 by (simp add: tracked_def)
qed


lemma runEvs_simps [simp]:
  "runEvs [] s = s" "runEvs (e # es) s = runEvs es (runEv e s)"
  "runEvs (xs @ ys) s = runEvs ys (runEvs xs s)"
  by (simp_all add: runEvs_def)

lemma tracked_runEv: "tracked s \<Longrightarrow> tracked (runEv e s)"
  by (cases e) (simp_all add: tracked_depend tracked_cleanupDeps tracked_teardown)

lemma tracked_runEvs: "tracked s \<Longrightarrow> tracked (runEvs es s)"
  by (induction es arbitrary: s) (simp_all add: tracked_runEv)

subsection \<open>The calls made while a watcher is the target\<close>

text \<open>
  While the getter of a watcher runs, the frame of the watcher lies on the target stack.
  \<open>depth\<close> counts the frames that the calls of the getter have pushed above it and not yet
  popped: at depth 0 the watcher is \<open>Dep.target\<close>.  \<open>touches\<close> lists the deps whose
  \<open>depend()\<close> is called at depth 0.  The calls leave the evaluation \<open>undisturbed\<close> when they
  do not make the watcher the target a second time, do not pop its own frame, and call
  neither \<open>cleanupDeps()\<close> nor \<open>teardown()\<close> of it.
\<close>

fun touches :: "nat \<Rightarrow> ev list \<Rightarrow> nat list" where
  "touches k [] = []"
| "touches k (Touch d # es) = (if k = 0 then d # touches k es else touches k es)"
| "touches k (Push t # es) = touches (Suc k) es"
| "touches k (Pop # es) = touches (k - 1) es"
| "touches k (Cleanup x # es) = touches k es"
| "touches k (Teardown x # es) = touches k es"

fun depth :: "nat \<Rightarrow> ev list \<Rightarrow> nat" where
  "depth k [] = k"
| "depth k (Push t # es) = depth (Suc k) es"
| "depth k (Pop # es) = depth (k - 1) es"
| "depth k (e # es) = depth k es"

fun undisturbed :: "nat \<Rightarrow> nat \<Rightarrow> ev list \<Rightarrow> bool" where
  "undisturbed w k [] = True"
| "undisturbed w k (Touch d # es) = undisturbed w k es"
| "undisturbed w k (Push t # es) = (t \<noteq> Some w \<and> undisturbed w (Suc k) es)"
| "undisturbed w k (Pop # es) = (0 < k \<and> undisturbed w (k - 1) es)"
| "undisturbed w k (Cleanup x # es) = (x \<noteq> w \<and> undisturbed w k es)"
| "undisturbed w k (Teardown x # es) = (x \<noteq> w \<and> undisturbed w k es)"

lemma touches_append: "touches k (xs @ ys) = touches k xs @ touches (depth k xs) ys"
  by (induction k xs rule: touches.induct) simp_all

lemma undisturbed_append:
  "undisturbed w k (xs @ ys) \<longleftrightarrow> undisturbed w k xs \<and> undisturbed w (depth k xs) ys"
  by (induction w k xs rule: undisturbed.induct) auto

lemma addDep_target [simp]:
  "targetStack (addDep w d s) = targetStack s" "target (addDep w d s) = target s"
  by (simp_all add: addDep_def updW_def addSub_def Let_def)

lemma depend_target [simp]:
  "targetStack (depend d s) = targetStack s" "target (depend d s) = target s"
  by (simp_all add: depend_def split: option.splits)

text \<open>
  Two watcher records agree but for what an evaluation in progress has collected.
\<close>

definition sameBut :: "watcher \<Rightarrow> watcher \<Rightarrow> bool" where
  "sameBut r r' \<longleftrightarrow> r'\<lparr>newDepIds := {}, newDeps := []\<rparr> = r\<lparr>newDepIds := {}, newDeps := []\<rparr>"

lemma sameBut_refl [simp]: "sameBut r r"
  by (simp add: sameBut_def)

lemma sameBut_trans: "sameBut a b \<Longrightarrow> sameBut b c \<Longrightarrow> sameBut a c"
  by (simp add: sameBut_def)

lemma sameBut_fields:
  assumes "sameBut r r'"
  shows "depIds r' = depIds r" "deps r' = deps r" "active r' = active r" "deep r' = deep r"
    "user r' = user r" "vm r' = vm r" "lazy r' = lazy r" "sync r' = sync r"
    "wvalue r' = wvalue r" "cbCalls r' = cbCalls r" "dirty r' = dirty r"
proof -
  have e: "r'\<lparr>newDepIds := {}, newDeps := []\<rparr> = r\<lparr>newDepIds := {}, newDeps := []\<rparr>"
    using assms by (simp add: sameBut_def)
  show "depIds r' = depIds r" using arg_cong[OF e, of depIds] by simp
  show "deps r' = deps r" using arg_cong[OF e, of deps] by simp
  show "active r' = active r" using arg_cong[OF e, of active] by simp
  show "deep r' = deep r" using arg_cong[OF e, of deep] by simp
  show "user r' = user r" using arg_cong[OF e, of user] by simp
  show "vm r' = vm r" using arg_cong[OF e, of vm] by simp
  show "lazy r' = lazy r" using arg_cong[OF e, of lazy] by simp
  show "sync r' = sync r" using arg_cong[OF e, of sync] by simp
  show "wvalue r' = wvalue r" using arg_cong[OF e, of wvalue] by simp
  show "cbCalls r' = cbCalls r" using arg_cong[OF e, of cbCalls] by simp
  show "dirty r' = dirty r" using arg_cong[OF e, of dirty] by simp
qed

lemma own_runEvs:
  assumes "targetStack t = base @ Some w # xs" and "length xs = k" and "Some w \<notin> set xs"
    and "target t = last (Some w # xs)" and "undisturbed w k es"
  shows "sameBut (watchers t w) (watchers (runEvs es t) w) \<and>
     newDepIds (watchers (runEvs es t) w) = newDepIds (watchers t w) \<union> set (touches k es)"
  using assms
proof (induction es arbitrary: t k xs)
  case Nil
  then show ?case by simp
next
  case (Cons e es)
  show ?case
  proof (cases e)
    case (Touch d)
    show ?thesis
    proof (cases "k = 0")
      case True
      then have tg: "target t = Some w" "xs = []" using Cons.prems by auto
      let ?t = "addDep w d t"
      have st: "targetStack ?t = base @ Some w # xs" "target ?t = last (Some w # xs)"
        using Cons.prems by simp_all
      have un: "undisturbed w k es" using Cons.prems(5) Touch by simp
      have w1: "sameBut (watchers t w) (watchers ?t w)"
        "newDepIds (watchers ?t w) = insert d (newDepIds (watchers t w))"
        by (auto simp: addDep_watchers sameBut_def)
      from Cons.IH[OF st(1) Cons.prems(2,3) st(2) un] w1
      show ?thesis
        using True tg by (auto simp: Touch depend_def intro: sameBut_trans)
    next
      case False
      then have "xs \<noteq> []" using Cons.prems(2) by auto
      then have "last xs \<in> set xs" by (rule last_in_set)
      then have l: "last xs \<noteq> Some w" using Cons.prems(3) by metis
      have tg: "target t = last xs" "last xs \<noteq> Some w"
        using Cons.prems(4) \<open>xs \<noteq> []\<close> l by simp_all
      let ?t = "depend d t"
      have same: "watchers ?t w = watchers t w"
        using tg by (auto simp: depend_def addDep_watchers split: option.splits)
      have st: "targetStack ?t = base @ Some w # xs" "target ?t = last (Some w # xs)"
        using Cons.prems by simp_all
      have un: "undisturbed w k es" using Cons.prems(5) Touch by simp
      from Cons.IH[OF st(1) Cons.prems(2,3) st(2) un]
      show ?thesis using False same by (simp add: Touch)
    qed
  next
    case (Push tt)
    let ?t = "pushTarget tt t"
    have ne: "tt \<noteq> Some w" and un: "undisturbed w (Suc k) es"
      using Cons.prems(5) Push by simp_all
    have st: "targetStack ?t = base @ Some w # (xs @ [tt])" "length (xs @ [tt]) = Suc k"
      "Some w \<notin> set (xs @ [tt])" "target ?t = last (Some w # (xs @ [tt]))"
      using Cons.prems ne by (auto simp: pushTarget_def)
    from Cons.IH[OF st un]
    show ?thesis by (simp add: Push pushTarget_def)
  next
    case Pop
    let ?t = "popTarget t"
    have k: "0 < k" and un: "undisturbed w (k - 1) es"
      using Cons.prems(5) Pop by simp_all
    then have nn: "xs \<noteq> []" using Cons.prems(2) by auto
    have bl: "butlast (base @ Some w # xs) = base @ Some w # butlast xs"
      using nn by (simp add: butlast_append)
    have st: "targetStack ?t = base @ Some w # butlast xs" "length (butlast xs) = k - 1"
      "Some w \<notin> set (butlast xs)" "target ?t = last (Some w # butlast xs)"
      using Cons.prems nn bl by (auto simp: popTarget_def Let_def dest: in_set_butlastD)
    from Cons.IH[OF st un]
    show ?thesis by (simp add: Pop popTarget_def Let_def)
  next
    case (Cleanup x)
    let ?t = "cleanupDeps x t"
    have ne: "x \<noteq> w" and un: "undisturbed w k es"
      using Cons.prems(5) Cleanup by simp_all
    have st: "targetStack ?t = base @ Some w # xs" "target ?t = last (Some w # xs)"
      using Cons.prems by simp_all
    from Cons.IH[OF st(1) Cons.prems(2,3) st(2) un]
    show ?thesis using ne by (simp add: Cleanup cleanupDeps_watchers)
  next
    case (Teardown x)
    let ?t = "teardown x t"
    have ne: "x \<noteq> w" and un: "undisturbed w k es"
      using Cons.prems(5) Teardown by simp_all
    have st: "targetStack ?t = base @ Some w # xs" "target ?t = last (Some w # xs)"
      using Cons.prems by simp_all
    from Cons.IH[OF st(1) Cons.prems(2,3) st(2) un]
    show ?thesis using ne by (simp add: Teardown teardown_watchers)
  qed
qed

lemma deep_runEv [simp]: "deep (watchers (runEv e s) w) = deep (watchers s w)"
  by (cases e)
     (auto simp: depend_def addDep_watchers pushTarget_def popTarget_def Let_def
        cleanupDeps_watchers teardown_watchers split: option.splits)

lemma deep_runEvs [simp]: "deep (watchers (runEvs es s) w) = deep (watchers s w)"
  by (induction es arbitrary: s) simp_all

lemma user_runEv [simp]: "user (watchers (runEv e s) w) = user (watchers s w)"
  by (cases e)
     (auto simp: depend_def addDep_watchers pushTarget_def popTarget_def Let_def
        cleanupDeps_watchers teardown_watchers split: option.splits)

lemma user_runEvs [simp]: "user (watchers (runEvs es s) w) = user (watchers s w)"
  by (induction es arbitrary: s) simp_all

text \<open>
  The calls made while the watcher is on the stack: those of the getter, and those of
  \<open>traverse\<close> for a deep watcher whose getter returned an object.  The \<open>finally\<close> block is
  completed unless that traversal throws.
\<close>

definition ownCalls :: "bool \<Rightarrow> ev list \<Rightarrow> jsval completion \<Rightarrow> ev list \<Rightarrow> unit completion \<Rightarrow> ev list"
  where
  "ownCalls isDeep calls res reads tres =
     calls @ (if isDeep
              then fst (traverse (case res of Normal v \<Rightarrow> v | Throw \<Rightarrow> JUndefined) reads tres)
              else [])"

definition completes :: "bool \<Rightarrow> jsval completion \<Rightarrow> unit completion \<Rightarrow> bool" where
  "completes isDeep res tres \<longleftrightarrow>
     \<not> (isDeep \<and> isObject (case res of Normal v \<Rightarrow> v | Throw \<Rightarrow> JUndefined) \<and> tres = Throw)"

lemma get_state:
  "fst (get w calls res reads tres s) =
     runEvs (Push (Some w) # ownCalls (deep (watchers s w)) calls res reads tres @
             (if completes (deep (watchers s w)) res tres then [Pop, Cleanup w] else [])) s"
  by (cases tres)
     (auto simp: get_def Let_def ownCalls_def completes_def traverse_def pushTarget_def
        split: completion.splits)

lemma get_throws:
  "\<not> completes (deep (watchers s w)) res tres \<Longrightarrow> snd (get w calls res reads tres s) = Throw"
  by (cases tres)
     (auto simp: get_def Let_def completes_def traverse_def pushTarget_def
        split: completion.splits)

text \<open>
  A complete evaluation of a watcher that is not torn down and has nothing collected
  beforehand leaves it subscribed to exactly the deps touched while it was the target.
\<close>

lemma evaluation_exact:
  assumes t: "tracked s" and idle: "newDepIds (watchers s w) = {}"
    and a: "active (watchers s w)" and u: "undisturbed w 0 tr"
  defines "s' \<equiv> runEvs (Push (Some w) # tr @ [Pop, Cleanup w]) s"
  shows "depIds (watchers s' w) = set (touches 0 tr)"
    and "set (deps (watchers s' w)) = set (touches 0 tr)"
    and "distinct (deps (watchers s' w))"
    and "newDepIds (watchers s' w) = {}"
    and "active (watchers s' w)"
    and "w \<in> set (subs s' d) \<longleftrightarrow> d \<in> set (touches 0 tr)"
proof -
  let ?s1 = "pushTarget (Some w) s"
  let ?s3 = "runEvs tr ?s1"
  have st: "targetStack ?s1 = targetStack s @ Some w # []" "length ([] :: nat option list) = 0"
    "Some w \<notin> set []" "target ?s1 = last (Some w # [])"
    by (simp_all add: pushTarget_def)
  from own_runEvs[OF st u]
  have sb: "sameBut (watchers ?s1 w) (watchers ?s3 w)"
    and nd: "newDepIds (watchers ?s3 w) = set (touches 0 tr)"
    using idle by (simp_all add: pushTarget_def)
  have w1: "watchers ?s1 w = watchers s w" by (simp add: pushTarget_def)
  have s': "s' = cleanupDeps w (popTarget ?s3)" by (simp add: s'_def)
  have wp: "watchers (popTarget ?s3) w = watchers ?s3 w" by (simp add: popTarget_def Let_def)
  have t': "tracked s'" unfolding s'_def by (rule tracked_runEvs[OF t])
  show 1: "depIds (watchers s' w) = set (touches 0 tr)"
    by (simp add: s' cleanupDeps_watchers wp nd)
  show 2: "newDepIds (watchers s' w) = {}" by (simp add: s' cleanupDeps_watchers)
  show 3: "active (watchers s' w)"
    using a sameBut_fields(3)[OF sb] by (simp add: s' cleanupDeps_watchers wp w1)
  show "set (deps (watchers s' w)) = set (touches 0 tr)"
    using t' 1 by (auto simp: tracked_def idSetsOk_def)
  show "distinct (deps (watchers s' w))" using t' by (auto simp: tracked_def idSetsOk_def)
  show "w \<in> set (subs s' d) \<longleftrightarrow> d \<in> set (touches 0 tr)"
  proof
    assume "w \<in> set (subs s' d)"
    then have "d \<in> depIds (watchers s' w) \<union> newDepIds (watchers s' w)"
      using t' by (auto simp: tracked_def subsKnown_def)
    then show "d \<in> set (touches 0 tr)" using 1 2 by simp
  next
    assume "d \<in> set (touches 0 tr)"
    then show "w \<in> set (subs s' d)"
      using t' 1 3 by (auto simp: tracked_def activeSubscribed_def)
  qed
qed

subsection \<open>Reachable states\<close>

text \<open>
  The states that the two modules can be in: the initial state, and what any of their
  functions makes of a reachable state, whether it is called from outside or by user
  code in the middle of an evaluation.  A call of \<open>depend()\<close> is on a dep that has been
  created, and a target is a watcher that has been created.
\<close>

definition knownEv :: "state \<Rightarrow> ev \<Rightarrow> bool" where
  "knownEv s e =
     (case e of
        Touch d \<Rightarrow> d < depUid s
      | Push t \<Rightarrow> (case t of None \<Rightarrow> True | Some w \<Rightarrow> 1 \<le> w \<and> w \<le> watcherUid s)
      | _ \<Rightarrow> True)"

definition knownEvs :: "state \<Rightarrow> ev list \<Rightarrow> bool" where
  "knownEvs s es = list_all (knownEv s) es"

inductive reachable :: "state \<Rightarrow> bool" where
  r_init: "reachable initState"
| r_newDep: "reachable s \<Longrightarrow> reachable (fst (newDep s))"
| r_call: "reachable s \<Longrightarrow> knownEv s e \<Longrightarrow> reachable (runEv e s)"
| r_newWatcher: "reachable s \<Longrightarrow> knownEvs s (calls @ reads) \<Longrightarrow>
     reachable (fst (newWatcher v opts isRenderWatcher calls res reads tres s))"
| r_get: "reachable s \<Longrightarrow> w \<in> {1..watcherUid s} \<Longrightarrow> knownEvs s (calls @ reads) \<Longrightarrow>
     reachable (fst (get w calls res reads tres s))"
| r_run: "reachable s \<Longrightarrow> w \<in> {1..watcherUid s} \<Longrightarrow> knownEvs s (calls @ reads) \<Longrightarrow>
     reachable (fst (run w calls res reads tres s))"
| r_evaluate: "reachable s \<Longrightarrow> w \<in> {1..watcherUid s} \<Longrightarrow> knownEvs s (calls @ reads) \<Longrightarrow>
     reachable (fst (evaluate w calls res reads tres s))"
| r_update: "reachable s \<Longrightarrow> w \<in> {1..watcherUid s} \<Longrightarrow> knownEvs s (calls @ reads) \<Longrightarrow>
     reachable (fst (update (\<lambda>w. run w calls res reads tres) (\<lambda>w t. (t, Normal ())) w s))"
| r_teardown: "reachable s \<Longrightarrow> reachable (teardown w s)"
| r_destroying: "reachable s \<Longrightarrow>
     reachable (s\<lparr>vmIsBeingDestroyed := (vmIsBeingDestroyed s)(v := True)\<rparr>)"

text \<open>
  Ids are handed out in order: an id that stands in an id set, in a subscriber list or
  on the target stack has been handed out.
\<close>

definition allocOk :: "state \<Rightarrow> bool" where
  "allocOk s \<longleftrightarrow>
     (\<forall>w d. d \<in> depIds (watchers s w) \<union> newDepIds (watchers s w) \<longrightarrow> d < depUid s) \<and>
     (\<forall>d w. w \<in> set (subs s d) \<longrightarrow> w \<le> watcherUid s) \<and>
     (\<forall>w. target s = Some w \<or> Some w \<in> set (targetStack s) \<longrightarrow> w \<le> watcherUid s)"

definition sound :: "state \<Rightarrow> bool" where
  "sound s \<longleftrightarrow> tracked s \<and> allocOk s"

lemma cleanupDeps_uids [simp]:
  "depUid (cleanupDeps w t) = depUid t" "watcherUid (cleanupDeps w t) = watcherUid t"
  by (simp_all add: cleanupDeps_def Let_def updW_def fold_removeSub_uids)

lemma addDep_uids [simp]:
  "depUid (addDep w d s) = depUid s" "watcherUid (addDep w d s) = watcherUid s"
  by (simp_all add: addDep_def updW_def addSub_def Let_def)

lemma uids_runEv [simp]:
  "depUid (runEv e s) = depUid s" "watcherUid (runEv e s) = watcherUid s"
  by (cases e; simp add: depend_def popTarget_def pushTarget_def Let_def split: option.splits)+

lemma uids_runEvs [simp]:
  "depUid (runEvs es s) = depUid s" "watcherUid (runEvs es s) = watcherUid s"
  by (induction es arbitrary: s; simp)+

lemma knownEv_mono:
  "depUid s \<le> depUid t \<Longrightarrow> watcherUid s \<le> watcherUid t \<Longrightarrow> knownEv s e \<Longrightarrow> knownEv t e"
  by (cases e) (auto simp: knownEv_def split: option.splits)

lemma knownEvs_mono:
  "depUid s \<le> depUid t \<Longrightarrow> watcherUid s \<le> watcherUid t \<Longrightarrow> knownEvs s es \<Longrightarrow> knownEvs t es"
  unfolding knownEvs_def list_all_iff using knownEv_mono by blast

lemma allocOk_addDep:
  "allocOk s \<Longrightarrow> d < depUid s \<Longrightarrow> w \<le> watcherUid s \<Longrightarrow> allocOk (addDep w d s)"
  unfolding allocOk_def
  by (auto simp: addDep_subs addDep_watchers split: if_splits)

lemma allocOk_cleanupDeps: "allocOk s \<Longrightarrow> allocOk (cleanupDeps w s)"
  unfolding allocOk_def
  by (auto simp: cleanupDeps_watchers cleanupDeps_subs split: if_splits dest: funpow_remove1_subset)

lemma allocOk_teardown: "allocOk s \<Longrightarrow> allocOk (teardown w s)"
  unfolding allocOk_def
  by (auto simp: teardown_subs teardown_watchers split: if_splits dest: funpow_remove1_subset)

lemma allocOk_pushTarget:
  "allocOk s \<Longrightarrow> (\<forall>w. t = Some w \<longrightarrow> w \<le> watcherUid s) \<Longrightarrow> allocOk (pushTarget t s)"
  unfolding allocOk_def by (auto simp: pushTarget_def)

lemma allocOk_popTarget: "allocOk s \<Longrightarrow> allocOk (popTarget s)"
proof -
  assume a: "allocOk s"
  have "Some w \<in> set (butlast (targetStack s)) \<Longrightarrow> w \<le> watcherUid s" for w
    using a unfolding allocOk_def by (auto dest: in_set_butlastD)
  moreover have "butlast (targetStack s) \<noteq> [] \<Longrightarrow> last (butlast (targetStack s)) = Some w
      \<Longrightarrow> w \<le> watcherUid s" for w
    using calculation[of w] last_in_set[of "butlast (targetStack s)"] by metis
  ultimately show ?thesis
    using a unfolding allocOk_def by (auto simp: popTarget_def Let_def)
qed

lemma sound_runEv:
  assumes "sound s" and "knownEv s e"
  shows "sound (runEv e s)"
proof -
  have t: "tracked (runEv e s)" using assms(1) by (simp add: sound_def tracked_runEv)
  have a: "allocOk s" using assms(1) by (simp add: sound_def)
  have "allocOk (runEv e s)"
  proof (cases e)
    case (Touch d)
    have d: "d < depUid s" using assms(2) Touch by (simp add: knownEv_def)
    show ?thesis
    proof (cases "target s")
      case None
      then show ?thesis using a by (simp add: Touch depend_def)
    next
      case (Some w)
      then have "w \<le> watcherUid s" using a unfolding allocOk_def by blast
      then show ?thesis using a d Some by (simp add: Touch depend_def allocOk_addDep)
    qed
  next
    case (Push tt)
    then show ?thesis using a assms(2)
      by (auto simp: knownEv_def intro!: allocOk_pushTarget split: option.splits)
  next
    case Pop
    then show ?thesis using a by (simp add: allocOk_popTarget)
  next
    case (Cleanup x)
    then show ?thesis using a by (simp add: allocOk_cleanupDeps)
  next
    case (Teardown x)
    then show ?thesis using a by (simp add: allocOk_teardown)
  qed
  then show ?thesis using t by (simp add: sound_def)
qed

lemma sound_runEvs:
  "sound s \<Longrightarrow> knownEvs s es \<Longrightarrow> sound (runEvs es s)"
proof (induction es arbitrary: s)
  case Nil
  then show ?case by simp
next
  case (Cons e es)
  have 1: "sound (runEv e s)" using Cons.prems by (simp add: knownEvs_def sound_runEv)
  have 2: "knownEvs (runEv e s) es"
    by (rule knownEvs_mono[of s]) (use Cons.prems(2) in \<open>simp_all add: knownEvs_def\<close>)
  show ?case using Cons.IH[OF 1 2] by simp
qed


lemma knownEvs_append [simp]: "knownEvs s (xs @ ys) \<longleftrightarrow> knownEvs s xs \<and> knownEvs s ys"
  by (simp add: knownEvs_def)

lemma knownEvs_get:
  assumes "1 \<le> w" "w \<le> watcherUid s" "knownEvs s (calls @ reads)"
  shows "knownEvs s (Push (Some w) # ownCalls dp calls res reads tres @
             (if cp then [Pop, Cleanup w] else []))"
  using assms by (auto simp: knownEvs_def knownEv_def ownCalls_def traverse_def)

lemma sound_get:
  assumes "sound s" "1 \<le> w" "w \<le> watcherUid s" "knownEvs s (calls @ reads)"
  shows "sound (fst (get w calls res reads tres s))"
  unfolding get_state by (rule sound_runEvs[OF assms(1) knownEvs_get[OF assms(2,3,4)]])

lemma uids_get:
  "depUid (fst (get w calls res reads tres s)) = depUid s"
  "watcherUid (fst (get w calls res reads tres s)) = watcherUid s"
  by (simp_all only: get_state uids_runEvs)

lemma sound_updW:
  assumes "sound s"
    and "\<And>r. deps (f r) = deps r \<and> newDeps (f r) = newDeps r \<and> depIds (f r) = depIds r \<and>
          newDepIds (f r) = newDepIds r \<and> active (f r) = active r"
  shows "sound (updW w f s)"
proof -
  have 1: "subsDistinct (updW w f s)" using assms(1)
    by (simp add: sound_def tracked_def subsDistinct_def updW_def)
  have 2: "subsKnown (updW w f s)" using assms
    by (simp add: sound_def tracked_def subsKnown_def updW_def)
  have 3: "idSetsOk (updW w f s)" using assms
    by (simp add: sound_def tracked_def idSetsOk_def updW_def)
  have 4: "activeSubscribed (updW w f s)" using assms
    by (simp add: sound_def tracked_def activeSubscribed_def updW_def)
  have 5: "allocOk (updW w f s)" using assms
    by (simp add: sound_def allocOk_def updW_def)
  show ?thesis using 1 2 3 4 5 by (simp add: sound_def tracked_def)
qed

lemma sound_init: "sound initState"
  by (simp add: sound_def tracked_def subsDistinct_def subsKnown_def idSetsOk_def
      activeSubscribed_def allocOk_def initState_def noWatcher_def)

lemma sound_newDep:
  assumes "sound s"
  shows "sound (fst (newDep s))"
proof -
  have fresh: "\<And>w. depUid s \<notin> depIds (watchers s w) \<union> newDepIds (watchers s w)"
    using assms unfolding sound_def allocOk_def by (meson less_irrefl)
  have 1: "subsDistinct (fst (newDep s))" using assms
    by (simp add: sound_def tracked_def subsDistinct_def newDep_def)
  have 2: "subsKnown (fst (newDep s))" using assms
    by (simp add: sound_def tracked_def subsKnown_def newDep_def)
  have 3: "idSetsOk (fst (newDep s))" using assms
    by (simp add: sound_def tracked_def idSetsOk_def newDep_def)
  have 4: "activeSubscribed (fst (newDep s))" using assms fresh
    unfolding sound_def tracked_def activeSubscribed_def newDep_def by auto
  have 5: "allocOk (fst (newDep s))" using assms
    unfolding sound_def allocOk_def newDep_def by (auto simp: less_Suc_eq)
  show ?thesis using 1 2 3 4 5 by (simp add: sound_def tracked_def)
qed

lemma sound_teardown: "sound s \<Longrightarrow> sound (teardown w s)"
  by (simp add: sound_def tracked_teardown allocOk_teardown)

lemma sound_run:
  assumes "sound s" "1 \<le> w" "w \<le> watcherUid s" "knownEvs s (calls @ reads)"
  shows "sound (fst (run w calls res reads tres s))"
proof -
  obtain s1 c where g: "get w calls res reads tres s = (s1, c)"
    by (cases "get w calls res reads tres s")
  have "sound s1" using sound_get[OF assms, of res tres] g by simp
  then show ?thesis using assms(1) g
    by (auto simp: run_def sound_updW split: completion.splits)
qed

lemma sound_evaluate:
  assumes "sound s" "1 \<le> w" "w \<le> watcherUid s" "knownEvs s (calls @ reads)"
  shows "sound (fst (evaluate w calls res reads tres s))"
proof -
  obtain s1 c where g: "get w calls res reads tres s = (s1, c)"
    by (cases "get w calls res reads tres s")
  have "sound s1" using sound_get[OF assms, of res tres] g by simp
  then show ?thesis using g
    by (auto simp: evaluate_def sound_updW split: completion.splits)
qed

lemma sound_update:
  assumes "sound s" "1 \<le> w" "w \<le> watcherUid s" "knownEvs s (calls @ reads)"
  shows "sound (fst (update (\<lambda>w. run w calls res reads tres) (\<lambda>w t. (t, Normal ())) w s))"
  using assms by (simp add: update_def sound_run sound_updW)

lemma sound_newWatcher:
  assumes s: "sound s" and k: "knownEvs s (calls @ reads)"
  shows "sound (fst (newWatcher v opts isRenderWatcher calls res reads tres s))"
proof -
  obtain oDeep oUser oLazy oSync where o:
    "(case opts of Some p \<Rightarrow> p | None \<Rightarrow> (False, False, False, False)) = (oDeep, oUser, oLazy, oSync)"
    by (metis prod_cases4)
  let ?w = "watcherUid s + 1"
  let ?s1 = "(if isRenderWatcher then s\<lparr>vmWatcher := (vmWatcher s)(v := Some ?w)\<rparr> else s)"
  let ?s2 = "?s1\<lparr>vmWatchers := (vmWatchers ?s1)(v := vmWatchers ?s1 v @ [?w])\<rparr>"
  let ?s3 = "?s2\<lparr>watcherUid := ?w,
                  watchers := (watchers ?s2)(?w :=
                    \<lparr>vm = v, deep = oDeep, user = oUser, lazy = oLazy, sync = oSync,
                     dirty = oLazy, active = True, deps = [], newDeps = [], depIds = {},
                     newDepIds = {}, wvalue = JUndefined, cbCalls = []\<rparr>)\<rparr>"
  have nw: "?w \<notin> set (subs s d)" for d
  proof
    assume "?w \<in> set (subs s d)"
    then have "?w \<le> watcherUid s" using s unfolding sound_def allocOk_def by blast
    then show False by simp
  qed
  have 1: "subsDistinct ?s3" using s by (simp add: sound_def tracked_def subsDistinct_def)
  have 2: "subsKnown ?s3" using s nw unfolding sound_def tracked_def subsKnown_def by auto
  have 3: "idSetsOk ?s3" using s by (simp add: sound_def tracked_def idSetsOk_def)
  have 4: "activeSubscribed ?s3" using s unfolding sound_def tracked_def activeSubscribed_def by auto
  have 5: "allocOk ?s3" using s unfolding sound_def allocOk_def by (auto simp: le_Suc_eq)
  have s3: "sound ?s3" using 1 2 3 4 5 by (simp add: sound_def tracked_def)
  have k3: "knownEvs ?s3 (calls @ reads)"
    by (rule knownEvs_mono[of s]) (use k in simp_all)
  have "sound (fst (get ?w calls res reads tres ?s3))"
    by (rule sound_get[OF s3 _ _ k3]) simp_all
  moreover obtain s4 c where g: "get ?w calls res reads tres ?s3 = (s4, c)"
    by (cases "get ?w calls res reads tres ?s3")
  ultimately have s4: "sound s4" by simp
  show ?thesis
    unfolding newWatcher_def Let_def o
    using s3 s4 g by (auto simp: sound_updW split: completion.splits)
qed

lemma sound_cong:
  assumes "subs t = subs s" "watchers t = watchers s" "depUid t = depUid s"
    "watcherUid t = watcherUid s" "target t = target s" "targetStack t = targetStack s"
  shows "sound t = sound s"
  unfolding sound_def tracked_def subsDistinct_def subsKnown_def idSetsOk_def
      activeSubscribed_def allocOk_def assms ..

lemma sound_destroying:
  "sound s \<Longrightarrow> sound (s\<lparr>vmIsBeingDestroyed := (vmIsBeingDestroyed s)(v := True)\<rparr>)"
  by (subst sound_cong[of _ s]) simp_all

lemma reachable_sound: "reachable s \<Longrightarrow> sound s"
proof (induction rule: reachable.induct)
  case r_init
  show ?case by (rule sound_init)
next
  case (r_newDep s)
  then show ?case by (simp add: sound_newDep)
next
  case (r_call s e)
  then show ?case by (simp add: sound_runEv)
next
  case (r_newWatcher s calls reads v opts isRenderWatcher res tres)
  then show ?case by (simp add: sound_newWatcher)
next
  case (r_get s w calls reads res tres)
  then show ?case by (simp add: sound_get)
next
  case (r_run s w calls reads res tres)
  then show ?case by (simp add: sound_run)
next
  case (r_evaluate s w calls reads res tres)
  then show ?case by (simp add: sound_evaluate)
next
  case (r_update s w calls reads res tres)
  then show ?case by (simp add: sound_update)
next
  case (r_teardown s w)
  then show ?case by (simp add: sound_teardown)
next
  case (r_destroying s v)
  then show ?case by (simp add: sound_destroying)
qed

lemma uids_updW [simp]:
  "depUid (updW w f s) = depUid s" "watcherUid (updW w f s) = watcherUid s"
  by (simp_all add: updW_def)

lemma uids_run [simp]:
  "depUid (fst (run w calls res reads tres s)) = depUid s"
  "watcherUid (fst (run w calls res reads tres s)) = watcherUid s"
  using uids_get[of w calls res reads tres s]
  by (auto simp: run_def split: prod.splits completion.splits)

lemma uids_evaluate [simp]:
  "depUid (fst (evaluate w calls res reads tres s)) = depUid s"
  "watcherUid (fst (evaluate w calls res reads tres s)) = watcherUid s"
  using uids_get[of w calls res reads tres s]
  by (auto simp: evaluate_def split: prod.splits completion.splits)

lemma uids_newDep [simp]:
  "depUid (fst (newDep s)) = depUid s + 1" "watcherUid (fst (newDep s)) = watcherUid s"
  by (simp_all add: newDep_def)

lemma uids_newWatcher [simp]:
  "depUid (fst (newWatcher v opts r calls res reads tres s)) = depUid s"
  "watcherUid (fst (newWatcher v opts r calls res reads tres s)) = watcherUid s + 1"
proof -
  obtain a b c d where o:
    "(case opts of Some p \<Rightarrow> p | None \<Rightarrow> (False, False, False, False)) = (a, b, c, d)"
    by (metis prod_cases4)
  show "depUid (fst (newWatcher v opts r calls res reads tres s)) = depUid s"
    unfolding newWatcher_def Let_def o
    by (auto simp: uids_get split: prod.splits completion.splits
        dest!: arg_cong[where f = "\<lambda>p. depUid (fst p)"])
  show "watcherUid (fst (newWatcher v opts r calls res reads tres s)) = watcherUid s + 1"
    unfolding newWatcher_def Let_def o
    by (auto simp: uids_get split: prod.splits completion.splits
        dest!: arg_cong[where f = "\<lambda>p. watcherUid (fst p)"])
qed

lemmas uids_get_simps [simp] = uids_get

lemmas model_defs = initState_def noWatcher_def newDep_def newWatcher_def get_def run_def
  evaluate_def update_def teardown_def pushTarget_def popTarget_def depend_def addDep_def
  updW_def addSub_def cleanupDeps_def removeSub_def removeItem_def traverse_def isObject_def
  strict_eq_def notify_def Let_def

section \<open>Properties of dependency tracking\<close>

text \<open>Example states, built from the initial state by the operations above.\<close>

definition quiet :: "nat \<Rightarrow> state \<Rightarrow> state \<times> unit completion" where
  "quiet w t = (t, Normal ())"

definition oneDep :: state where
  "oneDep = fst (newDep initState)"

definition twiceRead :: state where
  "twiceRead = fst (get 1 [Touch 0, Touch 0] (Normal (JNum 1)) [] (Normal ())
      (fst (newWatcher 0 None False [Touch 0, Touch 0] (Normal (JNum 1)) [] (Normal ()) oneDep)))"

lemma reachable_oneDep: "reachable oneDep"
  unfolding oneDep_def by (intro reachable.intros)

lemma reachable_twiceRead: "reachable twiceRead"
  unfolding twiceRead_def
  by (intro r_get r_newWatcher reachable_oneDep)
     (simp_all add: knownEvs_def knownEv_def oneDep_def)

lemma twiceRead_subs: "subs twiceRead 0 = [1]"
  by (simp add: twiceRead_def oneDep_def model_defs)

lemma twiceRead_depIds: "depIds (watchers twiceRead 1) = {0}"
  by (simp add: twiceRead_def oneDep_def model_defs)

text \<open>
  C3.  In every reachable state each subscriber list holds every watcher at most once; this
  stays so in the middle of an evaluation, whatever the getter reads and however often;
  and \<open>addDep\<close> appends the watcher to \<open>dep.subs\<close> exactly when the id of the dep is
  in neither \<open>newDepIds\<close> nor \<open>depIds\<close>, and leaves every subscriber list alone otherwise.
\<close>

theorem subscriber_at_most_once:
  assumes "reachable s"
  shows "distinct (subs s d) \<and>
     distinct (subs (runEvs es (pushTarget (Some w) s)) d) \<and>
     (\<forall>t d'. subs (addDep w d' t) d =
        (if d = d' \<and> d' \<notin> newDepIds (watchers t w) \<and> d' \<notin> depIds (watchers t w)
         then subs t d @ [w] else subs t d))"
proof -
  have t: "tracked s" using reachable_sound[OF assms] by (simp add: sound_def)
  then have 1: "distinct (subs s d)" by (simp add: tracked_def subsDistinct_def)
  have "tracked (runEvs es (pushTarget (Some w) s))" using t by (simp add: tracked_runEvs)
  then have 2: "distinct (subs (runEvs es (pushTarget (Some w) s)) d)"
    by (simp add: tracked_def subsDistinct_def)
  show ?thesis using 1 2 by (auto simp: addDep_subs)
qed

theorem subscriber_at_most_once_witness:
  "reachable twiceRead \<and> subs twiceRead 0 = [1] \<and> distinct (subs twiceRead 0) \<and>
   distinct (subs (runEvs [Touch 0, Touch 0] (pushTarget (Some 1) twiceRead)) 0) \<and>
   subs (addDep 1 0 twiceRead) 0 = [1]"
  using subscriber_at_most_once[OF reachable_twiceRead, of 0 "[Touch 0, Touch 0]" 1]
    reachable_twiceRead twiceRead_subs twiceRead_depIds
  by (simp add: addDep_subs)

definition lazyOpts :: "(bool \<times> bool \<times> bool \<times> bool) option" where
  "lazyOpts = Some (False, False, True, False)"

definition created :: state where
  "created = fst (newWatcher 0 lazyOpts False [] (Normal JUndefined) [] (Normal ()) oneDep)"

definition subscribed :: state where
  "subscribed = fst (evaluate 1 [Touch 0] (Normal (JNum 1)) [] (Normal ()) created)"

definition tornDown :: state where
  "tornDown = teardown 1 subscribed"

lemma reachable_created: "reachable created"
  unfolding created_def
  by (intro r_newWatcher reachable_oneDep) (simp add: knownEvs_def)

lemma reachable_subscribed: "reachable subscribed"
  unfolding subscribed_def
  by (intro r_evaluate reachable_created)
     (simp_all add: knownEvs_def knownEv_def created_def oneDep_def)

lemma reachable_tornDown: "reachable tornDown"
  unfolding tornDown_def by (intro r_teardown reachable_subscribed)



lemma notify_subset: "set (fst (snd (notify production async upd d s))) \<subseteq> set (subs s d)"
  using notifyLoop_subset[of upd "sort (subs s d)" s] notifyLoop_subset[of upd "subs s d" s]
  by (auto simp: notify_def Let_def)






definition unsorted :: state where
  "unsorted = fst (evaluate 1 [Touch 0] (Normal (JNum 1)) [] (Normal ())
     (fst (evaluate 2 [Touch 0] (Normal (JNum 1)) [] (Normal ())
       (fst (newWatcher 0 lazyOpts False [] (Normal JUndefined) [] (Normal ())
         (fst (newWatcher 0 lazyOpts False [] (Normal JUndefined) [] (Normal ()) oneDep)))))))"

definition bothRead :: state where
  "bothRead = fst (newWatcher 0 None False [Touch 0, Touch 1] (Normal (JNum 1)) [] (Normal ())
      (fst (newDep oneDep)))"

lemma reachable_bothRead: "reachable bothRead"
  unfolding bothRead_def
  by (intro r_newWatcher r_newDep reachable_oneDep)
     (simp_all add: knownEvs_def knownEv_def oneDep_def)

lemma bothRead_facts:
  "active (watchers bothRead 1)" "subs bothRead 0 = [1]" "subs bothRead 1 = [1]"
  "deps (watchers bothRead 1) = [0, 1]" "deep (watchers bothRead 1) = False"
  "newDepIds (watchers bothRead 1) = {}"
  by (simp_all add: bothRead_def oneDep_def model_defs)

text \<open>
  C1 as stated speaks of every watcher.  A watcher that was torn down keeps its \<open>depIds\<close>,
  so a later \<open>get()\<close> (through \<open>evaluate()\<close>, which does not look at \<open>active\<close>) that
  touches one of those deps finds the id in \<open>depIds\<close> and does not subscribe again.
\<close>

theorem get_after_teardown_counterexample:
  "reachable tornDown \<and> touches 0 [Touch 0] = [0] \<and>
   1 \<notin> set (subs (fst (get 1 [Touch 0] (Normal (JNum 1)) [] (Normal ()) tornDown)) 0)"
proof -
  have "subs (fst (get 1 [Touch 0] (Normal (JNum 1)) [] (Normal ()) tornDown)) 0 = []"
    by (simp add: tornDown_def subscribed_def created_def oneDep_def lazyOpts_def model_defs)
  then show ?thesis using reachable_tornDown by simp
qed

text \<open>
  Two more ways in which an evaluation does not end with the dependencies it read.  A
  getter that evaluates its own watcher again: the inner \<open>cleanupDeps()\<close> empties
  \<open>newDepIds\<close>, and the outer one then unsubscribes the watcher from a dep that the getter
  did read.  And a deep watcher whose traversal throws: \<open>popTarget()\<close> and \<open>cleanupDeps()\<close>
  are skipped, so the watcher stays the target and stays subscribed to a dep of the
  previous run that this run did not read.
\<close>

lemma get_reentered_example:
  "touches 0 [Touch 0, Push (Some 1), Pop, Cleanup 1] = [0] \<and>
   subs (fst (get 1 [Touch 0, Push (Some 1), Pop, Cleanup 1] (Normal (JNum 1)) [] (Normal ())
     bothRead)) 0 = []"
  by (simp add: bothRead_def oneDep_def model_defs)

definition deepOpts :: "(bool \<times> bool \<times> bool \<times> bool) option" where
  "deepOpts = Some (True, True, False, False)"

definition deepRead :: state where
  "deepRead = fst (newWatcher 0 deepOpts False [Touch 0, Touch 1] (Normal (JNum 1)) [] (Normal ())
      (fst (newDep oneDep)))"

lemma get_traverse_throws_example:
  "get 1 [Touch 0] (Normal (JRef 5)) [] Throw deepRead =
     (runEvs [Touch 0] (pushTarget (Some 1) deepRead), Throw) \<and>
   target (fst (get 1 [Touch 0] (Normal (JRef 5)) [] Throw deepRead)) = Some 1 \<and>
   subs (fst (get 1 [Touch 0] (Normal (JRef 5)) [] Throw deepRead)) 1 = [1]"
  by (simp add: deepRead_def deepOpts_def oneDep_def model_defs)

text \<open>
  C1, as amended.  For a watcher that has not been torn down and is not being evaluated
  already (\<open>newDepIds\<close> is empty), in any reachable state, the states in the middle of
  evaluations of other watchers included; for a getter whose calls leave the evaluation
  undisturbed, whatever else they do and however deep they nest evaluations of other
  watchers; and for an evaluation that completes its \<open>finally\<close> block.  After \<open>get()\<close> the
  ids in \<open>depIds\<close> and the entries of \<open>deps\<close> are exactly the deps touched while the
  watcher was the target (in \<open>ownCalls\<close>: the calls of the getter, and those of \<open>traverse\<close>
  for a deep watcher), without repetition; the watcher stands in the subscriber list of a
  dep if and only if that dep was touched; so it is gone from the list of every dep of the
  previous run that was not touched, and a \<open>notify\<close> of a dep that was not touched does not
  call its \<open>update\<close>.
\<close>

theorem get_tracks_reads:
  assumes "reachable s" and "active (watchers s w)" and "newDepIds (watchers s w) = {}"
    and "undisturbed w 0 (ownCalls (deep (watchers s w)) calls res reads tres)"
    and "completes (deep (watchers s w)) res tres"
  shows "let s' = fst (get w calls res reads tres s);
             T = set (touches 0 (ownCalls (deep (watchers s w)) calls res reads tres))
         in depIds (watchers s' w) = T \<and> set (deps (watchers s' w)) = T \<and>
            distinct (deps (watchers s' w)) \<and>
            (\<forall>d. w \<in> set (subs s' d) \<longleftrightarrow> d \<in> T) \<and>
            (\<forall>d \<in> set (deps (watchers s w)) - T. w \<notin> set (subs s' d)) \<and>
            (\<forall>production async upd d.
                d \<notin> T \<longrightarrow> w \<notin> set (fst (snd (notify production async upd d s'))))"
proof -
  let ?tr = "ownCalls (deep (watchers s w)) calls res reads tres"
  let ?s' = "runEvs (Push (Some w) # ?tr @ [Pop, Cleanup w]) s"
  have g: "fst (get w calls res reads tres s) = ?s'"
    unfolding get_state using assms(5) by simp
  have t: "tracked s" using reachable_sound[OF assms(1)] by (simp add: sound_def)
  note ex = evaluation_exact[OF t assms(3) assms(2) assms(4)]
  have sub: "w \<in> set (subs ?s' d) \<longleftrightarrow> d \<in> set (touches 0 ?tr)" for d by (rule ex(6))
  have nt: "w \<notin> set (fst (snd (notify production async upd d ?s')))"
    if "d \<notin> set (touches 0 ?tr)" for production async upd d
    using that sub[of d] notify_subset[of production async upd d ?s'] by blast
  show ?thesis
    unfolding Let_def g using ex(1,2,3) sub nt by blast
qed

text \<open>
  An example: the watcher 1 has read the deps 0 and 1; in its next evaluation the getter
  reads the dep 0, and a hook that it calls reads the dep 1 while no watcher is the
  target.
\<close>

theorem get_tracks_reads_witness:
  "reachable bothRead \<and> active (watchers bothRead 1) \<and> newDepIds (watchers bothRead 1) = {} \<and>
   undisturbed 1 0 (ownCalls (deep (watchers bothRead 1)) [Touch 0, Push None, Touch 1, Pop]
     (Normal (JNum 2)) [] (Normal ())) \<and>
   completes (deep (watchers bothRead 1)) (Normal (JNum 2)) (Normal ()) \<and>
   subs bothRead 0 = [1] \<and> subs bothRead 1 = [1] \<and>
   deps (watchers (fst (get 1 [Touch 0, Push None, Touch 1, Pop] (Normal (JNum 2)) [] (Normal ())
     bothRead)) 1) = [0] \<and>
   1 \<in> set (subs (fst (get 1 [Touch 0, Push None, Touch 1, Pop] (Normal (JNum 2)) [] (Normal ())
     bothRead)) 0) \<and>
   1 \<notin> set (subs (fst (get 1 [Touch 0, Push None, Touch 1, Pop] (Normal (JNum 2)) [] (Normal ())
     bothRead)) 1) \<and>
   1 \<notin> set (fst (snd (notify False False quiet 1
     (fst (get 1 [Touch 0, Push None, Touch 1, Pop] (Normal (JNum 2)) [] (Normal ()) bothRead)))))"
proof -
  let ?calls = "[Touch 0, Push None, Touch 1, Pop]"
  have u: "undisturbed 1 0 (ownCalls (deep (watchers bothRead 1)) ?calls (Normal (JNum 2)) []
      (Normal ()))"
    "completes (deep (watchers bothRead 1)) (Normal (JNum 2)) (Normal ())"
    using bothRead_facts by (simp_all add: ownCalls_def completes_def traverse_def)
  have tc: "touches 0 (ownCalls False [Touch 0, Push None, Touch (Suc 0), Pop] (Normal (JNum 2)) []
      (Normal ())) = [0]"
    by (simp add: ownCalls_def)
  have d: "deps (watchers (fst (get 1 ?calls (Normal (JNum 2)) [] (Normal ()) bothRead)) 1) = [0]"
    by (simp add: bothRead_def oneDep_def model_defs)
  show ?thesis
    using get_tracks_reads[OF reachable_bothRead bothRead_facts(1) bothRead_facts(6) u]
      reachable_bothRead bothRead_facts d u
    by (simp add: tc Let_def)
qed

subsection \<open>Facts about notify\<close>

lemma reachable_unsorted: "reachable unsorted"
  unfolding unsorted_def
  by (intro r_evaluate r_newWatcher reachable_oneDep)
     (simp_all add: knownEvs_def knownEv_def oneDep_def)

lemma unsorted_subs: "subs unsorted 0 = [2, 1]"
  by (simp add: unsorted_def oneDep_def lazyOpts_def model_defs)

text \<open>
  C4 as stated: with \<open>config.async\<close> off, \<open>update\<close> is called in ascending id order.  The
  sort is guarded by \<open>process.env.NODE_ENV !== 'production'\<close> as well; in a production
  build the subscribers are called in the order of the list.
\<close>

theorem notify_production_counterexample:
  "reachable unsorted \<and> subs unsorted 0 = [2, 1] \<and>
   fst (snd (notify True False quiet 0 unsorted)) = [2, 1]"
  using reachable_unsorted unsorted_subs by (simp add: notify_def quiet_def)

text \<open>
  C4, as amended.  \<open>notify\<close> walks a copy of the subscriber list taken on entry: whatever
  \<open>update\<close> does to the state, the watchers called are an initial stretch of that copy,
  and all of it when no \<open>update\<close> throws.  The copy holds the same watchers as the list;
  when the build is not a production build and \<open>config.async\<close> is off it is sorted by
  ascending id, and otherwise it is in the order of the list.
\<close>

theorem notify_snapshot_order:
  "let snapshot = (if \<not> production \<and> \<not> async then sort (subs s d) else subs s d);
       called = fst (snd (notify production async upd d s));
       c = snd (snd (notify production async upd d s))
   in called = take (length called) snapshot \<and>
      (c = Normal () \<longrightarrow> called = snapshot) \<and>
      set snapshot = set (subs s d) \<and> length snapshot = length (subs s d) \<and>
      (\<not> production \<and> \<not> async \<longrightarrow> sorted snapshot \<and> sorted called)"
proof -
  let ?snap = "if \<not> production \<and> \<not> async then sort (subs s d) else subs s d"
  have n: "notify production async upd d s = notifyLoop upd ?snap s"
    by (simp add: notify_def Let_def)
  obtain rest where r: "?snap = fst (snd (notifyLoop upd ?snap s)) @ rest"
    "snd (snd (notifyLoop upd ?snap s)) = Normal () \<longrightarrow> rest = []"
    using notifyLoop_called[of ?snap upd s] by blast
  have 1: "fst (snd (notifyLoop upd ?snap s)) = take (length (fst (snd (notifyLoop upd ?snap s)))) ?snap"
    by (subst (3) r(1)) simp
  have 2: "snd (snd (notifyLoop upd ?snap s)) = Normal () \<longrightarrow> fst (snd (notifyLoop upd ?snap s)) = ?snap"
    using r by auto
  have 3: "\<not> production \<and> \<not> async \<longrightarrow> sorted (fst (snd (notifyLoop upd ?snap s)))"
    by (subst 1) (auto intro: sorted_wrt_take)
  show ?thesis unfolding Let_def n using 1 2 3 by auto
qed


definition detaching :: "nat \<Rightarrow> state \<Rightarrow> state \<times> unit completion" where
  "detaching w t = (teardown 2 t, Normal ())"

theorem notify_snapshot_order_witness:
  "subs unsorted 0 = [2, 1] \<and>
   fst (snd (notify False False detaching 0 unsorted)) = [1, 2] \<and>
   snd (snd (notify False False detaching 0 unsorted)) = Normal () \<and>
   subs (fst (notify False False detaching 0 unsorted)) 0 = [1]"
proof -
  have a: "subs (fst (notify False False detaching 0 unsorted)) 0 = [1]"
    by (simp add: notify_def detaching_def unsorted_subs unsorted_def oneDep_def lazyOpts_def
        model_defs)
  have c: "snd (snd (notify False False detaching 0 unsorted)) = Normal ()"
    by (simp add: notify_def detaching_def unsorted_subs)
  show ?thesis
    using notify_snapshot_order[of False False unsorted 0 detaching] unsorted_subs a c
    by (simp add: Let_def)
qed

section \<open>The virtual DOM\<close>

text \<open>
  \<open>VNodeData\<close>, as far as the patch algorithm reads it: \<open>data.key\<close>, \<open>data.attrs\<close> (an
  object, read at its properties) and \<open>data.hook\<close> (which of the hooks are defined).
\<close>

record vnodeData =
  dataKey :: jsval
  attrs :: "(string \<Rightarrow> jsval) option"
  hook :: "(string \<Rightarrow> bool) option"

text \<open>
  The class \<open>VNode\<close>.  \<open>children\<close> is a reference to an array of vnodes, \<open>elm\<close> a reference
  to an output node, \<open>asyncFactory\<close> a reference to a factory function; \<open>undefined\<close> is
  \<open>None\<close>.  The fields \<open>text\<close> and \<open>context\<close> are \<open>vtext\<close> and \<open>vcontext\<close> here.
\<close>

record vnode =
  tag :: "string option"
  data :: "vnodeData option"
  children :: "nat option"
  vtext :: jsval
  elm :: "nat option"
  ns :: "string option"
  vcontext :: "nat option"
  fnContext :: "nat option"
  fnOptions :: "nat option"
  fnScopeId :: "string option"
  key :: jsval
  componentOptions :: "nat option"
  componentInstance :: "nat option"
  parent :: "nat option"
  raw :: bool
  isStatic :: bool
  isRootInsert :: bool
  isComment :: bool
  isCloned :: bool
  isOnce :: bool
  asyncFactory :: "nat option"
  asyncMeta :: "nat option"
  isAsyncPlaceholder :: bool

text \<open>The constructor: \<open>this.key = data && data.key\<close>, and the defaults of the other fields.\<close>

definition newVNode :: "string option \<Rightarrow> vnodeData option \<Rightarrow> nat option \<Rightarrow> jsval \<Rightarrow> nat option
    \<Rightarrow> nat option \<Rightarrow> nat option \<Rightarrow> nat option \<Rightarrow> vnode" where
  "newVNode tag0 data0 children0 text0 elm0 context0 componentOptions0 asyncFactory0 =
     \<lparr>tag = tag0, data = data0, children = children0, vtext = text0, elm = elm0, ns = None,
      vcontext = context0, fnContext = None, fnOptions = None, fnScopeId = None,
      key = (case data0 of None \<Rightarrow> JUndefined | Some d \<Rightarrow> dataKey d),
      componentOptions = componentOptions0, componentInstance = None, parent = None,
      raw = False, isStatic = False, isRootInsert = True, isComment = False, isCloned = False,
      isOnce = False, asyncFactory = asyncFactory0, asyncMeta = None,
      isAsyncPlaceholder = False\<rparr>"

subsection \<open>sameVnode\<close>

text \<open>
  \<open>isDef(i = a.data) && isDef(i = i.attrs) && i.type\<close>: the value \<open>false\<close> when \<open>data\<close> or
  \<open>attrs\<close> is missing, the property \<open>type\<close> of \<open>attrs\<close> otherwise.
\<close>

definition inputType :: "vnode \<Rightarrow> jsval" where
  "inputType a =
     (case data a of None \<Rightarrow> JBool False
      | Some d \<Rightarrow> (case attrs d of None \<Rightarrow> JBool False | Some at \<Rightarrow> at ''type''))"

text \<open>
  \<open>isTextInputType\<close> comes from \<open>web/util/element\<close>, which is not part of the sources; it
  is a parameter.
\<close>

definition sameInputType :: "(jsval \<Rightarrow> bool) \<Rightarrow> vnode \<Rightarrow> vnode \<Rightarrow> bool" where
  "sameInputType isTextInputType a b =
     (if tag a \<noteq> Some ''input'' then True
      else (let typeA = inputType a; typeB = inputType b
            in strict_eq typeA typeB \<or> (isTextInputType typeA \<and> isTextInputType typeB)))"

text \<open>
  \<open>sameVnode\<close>.  \<open>ferr f\<close> is the property \<open>error\<close> of the factory function \<open>f\<close>.  Reading
  \<open>b.asyncFactory.error\<close> when \<open>b.asyncFactory\<close> is \<open>undefined\<close> throws a TypeError.
\<close>

definition sameVnode :: "(jsval \<Rightarrow> bool) \<Rightarrow> (nat \<Rightarrow> jsval) \<Rightarrow> vnode \<Rightarrow> vnode
    \<Rightarrow> bool completion" where
  "sameVnode isTextInputType ferr a b =
     (if strict_eq (key a) (key b) \<and> asyncFactory a = asyncFactory b then
        (if tag a = tag b \<and> isComment a = isComment b \<and>
            (data a \<noteq> None) = (data b \<noteq> None) \<and> sameInputType isTextInputType a b
         then Normal True
         else if isAsyncPlaceholder a then
           (case asyncFactory b of
              None \<Rightarrow> Throw
            | Some f \<Rightarrow> Normal (isUndef (ferr f)))
         else Normal False)
      else Normal False)"

text \<open>Example nodes.\<close>

definition placeholderNode :: vnode where
  "placeholderNode = (newVNode None None None (JStr []) None None None (Some 0))
     \<lparr>isComment := True, isAsyncPlaceholder := True\<rparr>"

definition resolvedNode :: vnode where
  "resolvedNode = newVNode (Some ''vue-component-1-item'')
     (Some \<lparr>dataKey = JUndefined, attrs = None, hook = None\<rparr>) None JUndefined None None None
     (Some 0)"

definition inputNode :: "string \<Rightarrow> vnode" where
  "inputNode ty = newVNode (Some ''input'')
     (Some \<lparr>dataKey = JNum 1, attrs = Some ((\<lambda>k. JUndefined)(''type'' := JStr ty)), hook = None\<rparr>)
     None JUndefined None None None None"

definition textual :: "jsval \<Rightarrow> bool" where
  "textual v = (v = JStr ''text'' \<or> v = JStr ''password'')"

definition noError :: "nat \<Rightarrow> jsval" where
  "noError f = JUndefined"

text \<open>
  C6 as stated has, for its second alternative, that both nodes are async placeholders.
  The code tests only \<open>a.isAsyncPlaceholder\<close>: a placeholder comment and the component
  vnode that its factory has resolved to are the same node, although the second is no
  placeholder and the tags differ.  (This is how a hydrated placeholder gets patched.)
\<close>

theorem sameVnode_placeholder_counterexample:
  "sameVnode textual noError placeholderNode resolvedNode = Normal True \<and>
   \<not> isAsyncPlaceholder resolvedNode \<and> tag placeholderNode \<noteq> tag resolvedNode"
  by (simp add: sameVnode_def placeholderNode_def resolvedNode_def newVNode_def noError_def
      strict_eq_def isUndef_def)

text \<open>
  C6, as amended.  \<open>sameVnode(a, b)\<close> returns \<open>true\<close> if and only if the keys are equal
  (\<open>===\<close>), the async factories are identical, and either the tags are equal, the
  \<open>isComment\<close> flags are equal, \<open>data\<close> is defined on both or on neither and, when the tag
  is \<open>input\<close>, the input types are equal or both text-like; or \<open>a\<close> is an async
  placeholder and the factory of \<open>b\<close> has no \<open>error\<close>.
\<close>

theorem sameVnode_iff:
  "sameVnode isTextInputType ferr a b = Normal True \<longleftrightarrow>
     strict_eq (key a) (key b) \<and> asyncFactory a = asyncFactory b \<and>
     ((tag a = tag b \<and> isComment a = isComment b \<and> (data a \<noteq> None) = (data b \<noteq> None) \<and>
       (tag a = Some ''input'' \<longrightarrow>
          strict_eq (inputType a) (inputType b) \<or>
          (isTextInputType (inputType a) \<and> isTextInputType (inputType b)))) \<or>
      (isAsyncPlaceholder a \<and> (\<exists>f. asyncFactory b = Some f \<and> isUndef (ferr f))))"
  by (auto simp: sameVnode_def sameInputType_def Let_def split: option.splits)

theorem sameVnode_iff_witness:
  "sameVnode textual noError (inputNode ''text'') (inputNode ''password'') = Normal True \<and>
   sameVnode textual noError (inputNode ''text'') (inputNode ''checkbox'') = Normal False \<and>
   tag (inputNode ''text'') = Some ''input'' \<and>
   \<not> strict_eq (inputType (inputNode ''text'')) (inputType (inputNode ''password'')) \<and>
   textual (inputType (inputNode ''text'')) \<and> textual (inputType (inputNode ''password''))"
proof -
  have "sameVnode textual noError (inputNode ''text'') (inputNode ''checkbox'') = Normal False"
    by (simp add: sameVnode_def sameInputType_def inputNode_def newVNode_def inputType_def
        textual_def strict_eq_def)
  moreover have "strict_eq (key (inputNode ''text'')) (key (inputNode ''password''))"
    "tag (inputNode ''text'') = tag (inputNode ''password'')"
    "tag (inputNode ''text'') = Some ''input''"
    "\<not> strict_eq (inputType (inputNode ''text'')) (inputType (inputNode ''password''))"
    "textual (inputType (inputNode ''text''))" "textual (inputType (inputNode ''password''))"
    by (simp_all add: inputNode_def newVNode_def inputType_def textual_def strict_eq_def)
  ultimately show ?thesis
    using sameVnode_iff[of textual noError "inputNode ''text''" "inputNode ''password''"]
    by (simp add: inputNode_def newVNode_def)
qed


subsection \<open>The state of a patch\<close>

text \<open>
  The calls into the node-operations backend that change the output tree, and the calls of
  callbacks and of the functions that the model does not look into.  Output nodes are
  references; \<open>null\<close> and \<open>undefined\<close> are \<open>None\<close>.
\<close>

datatype nodeOp =
    InsertBefore "nat option" "nat option" "nat option"
  | RemoveChild "nat option" "nat option"
  | SetTextContent "nat option" jsval

datatype call =
    ModuleUpdate nat nat nat
  | DataHook string nat nat
  | CreateElm "nat option" "nat option" "nat option"
  | Hydrate "nat option" nat
  | RemoveHook nat
  | DestroyHook nat
  | Warn jsval

text \<open>
  A function of the patch algorithm returns, or throws a TypeError (a property read on
  \<open>undefined\<close>), or is cut off because a chain of references did not end within the
  depth it was given.
\<close>

datatype 'a outcome = Done 'a | TypeError | OutOfFuel

definition obind :: "'a outcome \<Rightarrow> ('a \<Rightarrow> 'b outcome) \<Rightarrow> 'b outcome" where
  "obind m f = (case m of Done x \<Rightarrow> f x | TypeError \<Rightarrow> TypeError | OutOfFuel \<Rightarrow> OutOfFuel)"

text \<open>
  The heap of a patch: the vnodes and the arrays of vnodes (an entry \<open>None\<close> is
  \<open>undefined\<close>), the properties \<open>error\<close> and \<open>resolved\<close> of the async factories, the
  \<open>_vnode\<close> of the component instances, the output tree \<open>dom\<close> of the backend, and the
  two records of calls.
\<close>

record 'd vstate =
  vnodes :: "nat \<Rightarrow> vnode"
  nextVnode :: nat
  arrays :: "nat \<Rightarrow> nat option list"
  nextArray :: nat
  factoryError :: "nat \<Rightarrow> jsval"
  factoryResolved :: "nat \<Rightarrow> jsval"
  instVnode :: "nat \<Rightarrow> nat option"
  dom :: 'd
  ops :: "nodeOp list"
  calls :: "call list"

text \<open>
  What \<open>createPatchFunction\<close> is given and what the sources import from elsewhere: the
  backend \<open>nodeOps\<close>, the number of \<open>update\<close> callbacks of the modules, \<open>isTextInputType\<close>,
  what \<open>String(key)\<close> is for an object used as a key, and the build mode.  \<open>createElm\<close>, \<open>hydrate\<close>,
  \<open>removeAndInvokeRemoveHook\<close> and \<open>invokeDestroyHook\<close> create and destroy output nodes and
  run component code; they are parameters too, and every call of them is recorded.
\<close>

record 'd env =
  envTextInput :: "jsval \<Rightarrow> bool"
  envObjectString :: "nat \<Rightarrow> string"
  envProduction :: bool
  cbsUpdate :: nat
  opInsertBefore :: "nat option \<Rightarrow> nat option \<Rightarrow> nat option \<Rightarrow> 'd \<Rightarrow> 'd"
  opNextSibling :: "nat option \<Rightarrow> 'd \<Rightarrow> nat option"
  opSetTextContent :: "nat option \<Rightarrow> jsval \<Rightarrow> 'd \<Rightarrow> 'd"
  opParentNode :: "nat option \<Rightarrow> 'd \<Rightarrow> nat option"
  opRemoveChild :: "nat option \<Rightarrow> nat option \<Rightarrow> 'd \<Rightarrow> 'd"
  createElmFn :: "nat option \<Rightarrow> nat option \<Rightarrow> nat option \<Rightarrow> bool \<Rightarrow> nat option \<Rightarrow> int
      \<Rightarrow> 'd vstate \<Rightarrow> 'd vstate outcome"
  hydrateFn :: "nat option \<Rightarrow> nat \<Rightarrow> 'd vstate \<Rightarrow> 'd vstate outcome"
  removeHookFn :: "nat \<Rightarrow> 'd vstate \<Rightarrow> 'd vstate outcome"
  destroyHookFn :: "nat \<Rightarrow> 'd vstate \<Rightarrow> 'd vstate outcome"

definition insertBefore :: "'d env \<Rightarrow> nat option \<Rightarrow> nat option \<Rightarrow> nat option
    \<Rightarrow> 'd vstate \<Rightarrow> 'd vstate" where
  "insertBefore env p e r st =
     st\<lparr>dom := opInsertBefore env p e r (dom st), ops := ops st @ [InsertBefore p e r]\<rparr>"

definition setTextContent :: "'d env \<Rightarrow> nat option \<Rightarrow> jsval \<Rightarrow> 'd vstate \<Rightarrow> 'd vstate" where
  "setTextContent env e t st =
     st\<lparr>dom := opSetTextContent env e t (dom st), ops := ops st @ [SetTextContent e t]\<rparr>"

definition removeNode :: "'d env \<Rightarrow> nat option \<Rightarrow> 'd vstate \<Rightarrow> 'd vstate" where
  "removeNode env el st =
     (case opParentNode env el (dom st) of
        None \<Rightarrow> st
      | Some p \<Rightarrow> st\<lparr>dom := opRemoveChild env (Some p) el (dom st),
                      ops := ops st @ [RemoveChild (Some p) el]\<rparr>)"

definition createElm :: "'d env \<Rightarrow> nat option \<Rightarrow> nat option \<Rightarrow> nat option \<Rightarrow> bool \<Rightarrow> nat option
    \<Rightarrow> int \<Rightarrow> 'd vstate \<Rightarrow> 'd vstate outcome" where
  "createElm env v parentElm refElm nested ownerArray index st =
     createElmFn env v parentElm refElm nested ownerArray index
       (st\<lparr>calls := calls st @ [CreateElm v parentElm refElm]\<rparr>)"

definition hydrate :: "'d env \<Rightarrow> nat option \<Rightarrow> nat \<Rightarrow> 'd vstate \<Rightarrow> 'd vstate outcome" where
  "hydrate env e v st = hydrateFn env e v (st\<lparr>calls := calls st @ [Hydrate e v]\<rparr>)"

definition removeAndInvokeRemoveHook :: "'d env \<Rightarrow> nat \<Rightarrow> 'd vstate \<Rightarrow> 'd vstate outcome" where
  "removeAndInvokeRemoveHook env v st = removeHookFn env v (st\<lparr>calls := calls st @ [RemoveHook v]\<rparr>)"

definition invokeDestroyHook :: "'d env \<Rightarrow> nat \<Rightarrow> 'd vstate \<Rightarrow> 'd vstate outcome" where
  "invokeDestroyHook env v st = destroyHookFn env v (st\<lparr>calls := calls st @ [DestroyHook v]\<rparr>)"

text \<open>Reading and writing an array at an index, as JavaScript does out of range.\<close>

definition readArr :: "nat option list \<Rightarrow> int \<Rightarrow> nat option" where
  "readArr xs i = (if 0 \<le> i \<and> i < int (length xs) then xs ! nat i else None)"

definition writeArr :: "nat option list \<Rightarrow> int \<Rightarrow> nat option \<Rightarrow> nat option list" where
  "writeArr xs i v =
     (if i < 0 then xs
      else if nat i < length xs then xs[nat i := v]
      else xs @ replicate (nat i - length xs) None @ [v])"

definition setVnode :: "nat \<Rightarrow> (vnode \<Rightarrow> vnode) \<Rightarrow> 'd vstate \<Rightarrow> 'd vstate" where
  "setVnode r f st = st\<lparr>vnodes := (vnodes st)(r := f (vnodes st r))\<rparr>"

text \<open>
  \<open>cloneVNode\<close>: a new vnode, with a copy of the children array (\<open>children.slice()\<close>) when
  there is one.  Returns the reference of the clone.
\<close>

definition cloneVNode :: "nat \<Rightarrow> 'd vstate \<Rightarrow> nat \<times> 'd vstate" where
  "cloneVNode r st =
     (let v = vnodes st r;
          (ch, st1) = (case children v of
                         None \<Rightarrow> (None, st)
                       | Some a \<Rightarrow> (Some (nextArray st),
                           st\<lparr>arrays := (arrays st)(nextArray st := arrays st a),
                              nextArray := nextArray st + 1\<rparr>));
          cloned = (newVNode (tag v) (data v) ch (vtext v) (elm v) (vcontext v)
                      (componentOptions v) (asyncFactory v))
                    \<lparr>ns := ns v, isStatic := isStatic v, key := key v,
                     isComment := isComment v, fnContext := fnContext v,
                     fnOptions := fnOptions v, fnScopeId := fnScopeId v,
                     asyncMeta := asyncMeta v, isCloned := True\<rparr>
      in (nextVnode st1,
          st1\<lparr>vnodes := (vnodes st1)(nextVnode st1 := cloned), nextVnode := nextVnode st1 + 1\<rparr>))"

text \<open>
  \<open>isPatchable\<close>: \<open>while (vnode.componentInstance) vnode = vnode.componentInstance._vnode\<close>.
  The chain of instances is followed \<open>n\<close> links deep.
\<close>

fun isPatchable :: "nat \<Rightarrow> 'd vstate \<Rightarrow> nat \<Rightarrow> bool outcome" where
  "isPatchable 0 st r =
     (case componentInstance (vnodes st r) of
        None \<Rightarrow> Done (tag (vnodes st r) \<noteq> None)
      | Some ci \<Rightarrow> OutOfFuel)"
| "isPatchable (Suc n) st r =
     (case componentInstance (vnodes st r) of
        None \<Rightarrow> Done (tag (vnodes st r) \<noteq> None)
      | Some ci \<Rightarrow>
          (case instVnode st ci of
             None \<Rightarrow> TypeError
           | Some r' \<Rightarrow> isPatchable n st r'))"

definition sameVnodeAt :: "'d env \<Rightarrow> 'd vstate \<Rightarrow> nat option \<Rightarrow> nat option \<Rightarrow> bool outcome" where
  "sameVnodeAt env st a b =
     (case a of
        None \<Rightarrow> TypeError
      | Some ra \<Rightarrow>
          (case b of
             None \<Rightarrow> TypeError
           | Some rb \<Rightarrow>
               (case sameVnode (envTextInput env) (factoryError st) (vnodes st ra) (vnodes st rb) of
                  Throw \<Rightarrow> TypeError
                | Normal r \<Rightarrow> Done r)))"

subsection \<open>Keys as property names\<close>

text \<open>
  \<open>checkDuplicateKeys\<close> and \<open>createKeyToOldIdx\<close> use keys as property names of an object
  literal \<open>{}\<close>.  The name of a key is \<open>String(key)\<close>: a string is its own name and a number
  is written in decimal (the numbers of the model are integers), so that the key \<open>1\<close> and
  the key \<open>'1'\<close> have the same name.
\<close>

fun digitsOf :: "nat \<Rightarrow> string" where
  "digitsOf n =
     (if n < 10 then [''0123456789'' ! n]
      else digitsOf (n div 10) @ [''0123456789'' ! (n mod 10)])"

declare digitsOf.simps [simp del]

definition numberString :: "int \<Rightarrow> string" where
  "numberString i = (if i < 0 then CHR ''-'' # digitsOf (nat (- i)) else digitsOf (nat i))"

definition keyString :: "(nat \<Rightarrow> string) \<Rightarrow> jsval \<Rightarrow> string" where
  "keyString objectString k =
     (case k of
        JStr s \<Rightarrow> s
      | JNum i \<Rightarrow> numberString i
      | JNaN \<Rightarrow> ''NaN''
      | JBool b \<Rightarrow> (if b then ''true'' else ''false'')
      | JNull \<Rightarrow> ''null''
      | JUndefined \<Rightarrow> ''undefined''
      | JRef r \<Rightarrow> objectString r)"

text \<open>
  An object literal inherits the properties of \<open>Object.prototype\<close>: reading one of these
  names gives a function (an object for \<open>__proto__\<close>) unless the object has a property of
  its own by that name, and assigning a number or a boolean to \<open>__proto__\<close> does nothing.
\<close>

definition objectPrototype :: "string list" where
  "objectPrototype =
     [''constructor'', ''__defineGetter__'', ''__defineSetter__'', ''hasOwnProperty'',
      ''__lookupGetter__'', ''__lookupSetter__'', ''isPrototypeOf'', ''propertyIsEnumerable'',
      ''toString'', ''valueOf'', ''__proto__'', ''toLocaleString'']"

text \<open>
  \<open>checkDuplicateKeys\<close>: reads the key of every child (a TypeError on an \<open>undefined\<close>
  entry) and warns when \<open>seenKeys[key]\<close> is truthy: the key was seen before, or its name is
  inherited.
\<close>

fun dupWarnings :: "(jsval \<Rightarrow> string) \<Rightarrow> (nat \<Rightarrow> vnode) \<Rightarrow> nat option list \<Rightarrow> string set
    \<Rightarrow> call list outcome" where
  "dupWarnings ks vs [] seen = Done []"
| "dupWarnings ks vs (None # cs) seen = TypeError"
| "dupWarnings ks vs (Some c # cs) seen =
     (if isDef (key (vs c)) then
        (if ks (key (vs c)) \<in> seen \<or> ks (key (vs c)) \<in> set objectPrototype
         then obind (dupWarnings ks vs cs seen) (\<lambda>ws. Done (Warn (key (vs c)) # ws))
         else dupWarnings ks vs cs (insert (ks (key (vs c))) seen))
      else dupWarnings ks vs cs seen)"

definition checkDuplicateKeys :: "'d env \<Rightarrow> nat \<Rightarrow> 'd vstate \<Rightarrow> 'd vstate outcome" where
  "checkDuplicateKeys env ch st =
     obind (dupWarnings (keyString (envObjectString env)) (vnodes st) (arrays st ch) {})
       (\<lambda>ws. Done (st\<lparr>calls := calls st @ ws\<rparr>))"

fun foldOut :: "('x \<Rightarrow> 's \<Rightarrow> 's outcome) \<Rightarrow> 'x list \<Rightarrow> 's \<Rightarrow> 's outcome" where
  "foldOut f [] st = Done st"
| "foldOut f (x # xs) st = obind (f x st) (foldOut f xs)"

definition addVnodes :: "'d env \<Rightarrow> nat option \<Rightarrow> nat option \<Rightarrow> nat \<Rightarrow> int \<Rightarrow> int
    \<Rightarrow> 'd vstate \<Rightarrow> 'd vstate outcome" where
  "addVnodes env parentElm refElm vs startIdx endIdx st =
     foldOut (\<lambda>i t. createElm env (readArr (arrays t vs) i) parentElm refElm False (Some vs) i t)
       [startIdx..endIdx] st"

definition removeVnodes :: "'d env \<Rightarrow> nat \<Rightarrow> int \<Rightarrow> int \<Rightarrow> 'd vstate \<Rightarrow> 'd vstate outcome" where
  "removeVnodes env vs startIdx endIdx st =
     foldOut (\<lambda>i t.
         (case readArr (arrays t vs) i of
            None \<Rightarrow> Done t
          | Some ch \<Rightarrow>
              (if tag (vnodes t ch) \<noteq> None
               then obind (removeAndInvokeRemoveHook env ch t) (invokeDestroyHook env ch)
               else Done (removeNode env (elm (vnodes t ch)) t))))
       [startIdx..endIdx] st"

subsection \<open>updateChildren\<close>

text \<open>The local variables of \<open>updateChildren\<close> that change in the loop.\<close>

record loopVars =
  oldStartIdx :: int
  newStartIdx :: int
  oldEndIdx :: int
  oldStartVnode :: "nat option"
  oldEndVnode :: "nat option"
  newEndIdx :: int
  newStartVnode :: "nat option"
  newEndVnode :: "nat option"
  oldKeyToIdx :: "(string \<Rightarrow> int option) option"

text \<open>
  \<open>createKeyToOldIdx\<close>: \<open>map[key] = i\<close> for the children from \<open>beginIdx\<close> to \<open>endIdx\<close> that
  have a key; a later child overwrites an earlier one.  The map is an object literal; the
  function below holds its own properties.
\<close>

fun keyMap :: "(jsval \<Rightarrow> string) \<Rightarrow> (nat \<Rightarrow> vnode) \<Rightarrow> nat option list \<Rightarrow> int list
    \<Rightarrow> (string \<Rightarrow> int option) \<Rightarrow> (string \<Rightarrow> int option) outcome" where
  "keyMap ks vs arr [] m = Done m"
| "keyMap ks vs arr (i # is) m =
     (case readArr arr i of
        None \<Rightarrow> TypeError
      | Some c \<Rightarrow>
          keyMap ks vs arr is
            (if isDef (key (vs c)) \<and> ks (key (vs c)) \<noteq> ''__proto__''
             then m(ks (key (vs c)) := Some i) else m))"

definition createKeyToOldIdx :: "'d env \<Rightarrow> 'd vstate \<Rightarrow> nat \<Rightarrow> int \<Rightarrow> int
    \<Rightarrow> (string \<Rightarrow> int option) outcome" where
  "createKeyToOldIdx env st ch beginIdx endIdx =
     keyMap (keyString (envObjectString env)) (vnodes st) (arrays st ch) [beginIdx..endIdx]
       (\<lambda>k. None)"

text \<open>
  What \<open>idxInOld\<close> can be: \<open>undefined\<close>, an index, or a property of \<open>Object.prototype\<close>
  that \<open>oldKeyToIdx[key]\<close> has found.
\<close>

datatype found = Absent | Index int | Inherited

definition readKey :: "(string \<Rightarrow> int option) \<Rightarrow> string \<Rightarrow> found" where
  "readKey m name =
     (case m name of
        Some i \<Rightarrow> Index i
      | None \<Rightarrow> if name \<in> set objectPrototype then Inherited else Absent)"

text \<open>\<open>findIdxInOld\<close>: \<open>for (let i = start; i < end; i++)\<close>, the first same node.\<close>

fun findIdx :: "'d env \<Rightarrow> 'd vstate \<Rightarrow> nat \<Rightarrow> nat \<Rightarrow> int list \<Rightarrow> int option outcome" where
  "findIdx env st node oldCh [] = Done None"
| "findIdx env st node oldCh (i # is) =
     (case readArr (arrays st oldCh) i of
        None \<Rightarrow> findIdx env st node oldCh is
      | Some c \<Rightarrow>
          obind (sameVnodeAt env st (Some node) (Some c))
            (\<lambda>b. if b then Done (Some i) else findIdx env st node oldCh is))"

definition findIdxInOld :: "'d env \<Rightarrow> 'd vstate \<Rightarrow> nat \<Rightarrow> nat \<Rightarrow> int \<Rightarrow> int
    \<Rightarrow> int option outcome" where
  "findIdxInOld env st node oldCh start end' = findIdx env st node oldCh [start..end' - 1]"

text \<open>
  The five ways in which a turn of the \<open>while\<close> loop of \<open>updateChildren\<close> can go on once
  both \<open>oldStartVnode\<close> and \<open>oldEndVnode\<close> are defined.  \<open>patch\<close> is \<open>patchVnode\<close> with the
  queue; the flag \<open>removeOnly\<close> is not passed on by \<open>updateChildren\<close>.
\<close>

definition stepSameStart :: "(nat \<Rightarrow> nat \<Rightarrow> nat option \<Rightarrow> int \<Rightarrow> 'd vstate \<Rightarrow> 'd vstate outcome)
    \<Rightarrow> nat \<Rightarrow> nat \<Rightarrow> loopVars \<Rightarrow> nat \<Rightarrow> 'd vstate \<Rightarrow> (loopVars \<times> 'd vstate) outcome" where
  "stepSameStart patch oldCh newCh v osv st =
     (case newStartVnode v of
        None \<Rightarrow> TypeError
      | Some nsv \<Rightarrow>
          obind (patch osv nsv (Some newCh) (newStartIdx v) st) (\<lambda>st1.
            Done (v\<lparr>oldStartIdx := oldStartIdx v + 1,
                    oldStartVnode := readArr (arrays st1 oldCh) (oldStartIdx v + 1),
                    newStartIdx := newStartIdx v + 1,
                    newStartVnode := readArr (arrays st1 newCh) (newStartIdx v + 1)\<rparr>, st1)))"

definition stepSameEnd :: "(nat \<Rightarrow> nat \<Rightarrow> nat option \<Rightarrow> int \<Rightarrow> 'd vstate \<Rightarrow> 'd vstate outcome)
    \<Rightarrow> nat \<Rightarrow> nat \<Rightarrow> loopVars \<Rightarrow> nat \<Rightarrow> 'd vstate \<Rightarrow> (loopVars \<times> 'd vstate) outcome" where
  "stepSameEnd patch oldCh newCh v oev st =
     (case newEndVnode v of
        None \<Rightarrow> TypeError
      | Some nev \<Rightarrow>
          obind (patch oev nev (Some newCh) (newEndIdx v) st) (\<lambda>st1.
            Done (v\<lparr>oldEndIdx := oldEndIdx v - 1,
                    oldEndVnode := readArr (arrays st1 oldCh) (oldEndIdx v - 1),
                    newEndIdx := newEndIdx v - 1,
                    newEndVnode := readArr (arrays st1 newCh) (newEndIdx v - 1)\<rparr>, st1)))"

definition stepMovedRight :: "(nat \<Rightarrow> nat \<Rightarrow> nat option \<Rightarrow> int \<Rightarrow> 'd vstate \<Rightarrow> 'd vstate outcome)
    \<Rightarrow> 'd env \<Rightarrow> nat option \<Rightarrow> nat \<Rightarrow> nat \<Rightarrow> bool \<Rightarrow> loopVars \<Rightarrow> nat \<Rightarrow> nat \<Rightarrow> 'd vstate
    \<Rightarrow> (loopVars \<times> 'd vstate) outcome" where
  "stepMovedRight patch env parentElm oldCh newCh canMove v osv oev st =
     (case newEndVnode v of
        None \<Rightarrow> TypeError
      | Some nev \<Rightarrow>
          obind (patch osv nev (Some newCh) (newEndIdx v) st) (\<lambda>st1.
            (let st2 = (if canMove
                        then insertBefore env parentElm (elm (vnodes st1 osv))
                               (opNextSibling env (elm (vnodes st1 oev)) (dom st1)) st1
                        else st1)
             in Done (v\<lparr>oldStartIdx := oldStartIdx v + 1,
                        oldStartVnode := readArr (arrays st2 oldCh) (oldStartIdx v + 1),
                        newEndIdx := newEndIdx v - 1,
                        newEndVnode := readArr (arrays st2 newCh) (newEndIdx v - 1)\<rparr>, st2))))"

definition stepMovedLeft :: "(nat \<Rightarrow> nat \<Rightarrow> nat option \<Rightarrow> int \<Rightarrow> 'd vstate \<Rightarrow> 'd vstate outcome)
    \<Rightarrow> 'd env \<Rightarrow> nat option \<Rightarrow> nat \<Rightarrow> nat \<Rightarrow> bool \<Rightarrow> loopVars \<Rightarrow> nat \<Rightarrow> nat \<Rightarrow> 'd vstate
    \<Rightarrow> (loopVars \<times> 'd vstate) outcome" where
  "stepMovedLeft patch env parentElm oldCh newCh canMove v osv oev st =
     (case newStartVnode v of
        None \<Rightarrow> TypeError
      | Some nsv \<Rightarrow>
          obind (patch oev nsv (Some newCh) (newStartIdx v) st) (\<lambda>st1.
            (let st2 = (if canMove
                        then insertBefore env parentElm (elm (vnodes st1 oev))
                               (elm (vnodes st1 osv)) st1
                        else st1)
             in Done (v\<lparr>oldEndIdx := oldEndIdx v - 1,
                        oldEndVnode := readArr (arrays st2 oldCh) (oldEndIdx v - 1),
                        newStartIdx := newStartIdx v + 1,
                        newStartVnode := readArr (arrays st2 newCh) (newStartIdx v + 1)\<rparr>, st2))))"

text \<open>
  The last branch: look the new start node up among the old children, by key or by
  search; patch and move the node found if it is the same node, create a new one if not.
  When the lookup by key finds an inherited property, \<open>oldCh[idxInOld]\<close> is \<open>undefined\<close> and
  \<open>sameVnode\<close> throws a TypeError on reading its key.
\<close>

definition placeKeyed :: "(nat \<Rightarrow> nat \<Rightarrow> nat option \<Rightarrow> int \<Rightarrow> 'd vstate \<Rightarrow> 'd vstate outcome)
    \<Rightarrow> 'd env \<Rightarrow> nat option \<Rightarrow> nat \<Rightarrow> nat \<Rightarrow> bool \<Rightarrow> loopVars \<Rightarrow> nat \<Rightarrow> nat
    \<Rightarrow> found \<Rightarrow> 'd vstate \<Rightarrow> 'd vstate outcome" where
  "placeKeyed patch env parentElm oldCh newCh canMove v osv nsv idxInOld st =
     (case idxInOld of
        Absent \<Rightarrow>
          createElm env (Some nsv) parentElm (elm (vnodes st osv)) False (Some newCh)
            (newStartIdx v) st
      | Inherited \<Rightarrow> TypeError
      | Index i \<Rightarrow>
          (let vnodeToMove = readArr (arrays st oldCh) i
           in obind (sameVnodeAt env st vnodeToMove (Some nsv)) (\<lambda>same.
                if same then
                  (case vnodeToMove of
                     None \<Rightarrow> TypeError
                   | Some mv \<Rightarrow>
                       obind (patch mv nsv (Some newCh) (newStartIdx v) st) (\<lambda>st1.
                         (let st2 = st1\<lparr>arrays := (arrays st1)
                                      (oldCh := writeArr (arrays st1 oldCh) i None)\<rparr>
                          in Done (if canMove
                                   then insertBefore env parentElm (elm (vnodes st2 mv))
                                          (elm (vnodes st2 osv)) st2
                                   else st2))))
                else
                  createElm env (Some nsv) parentElm (elm (vnodes st osv)) False (Some newCh)
                    (newStartIdx v) st)))"

definition stepKeyed :: "(nat \<Rightarrow> nat \<Rightarrow> nat option \<Rightarrow> int \<Rightarrow> 'd vstate \<Rightarrow> 'd vstate outcome)
    \<Rightarrow> 'd env \<Rightarrow> nat option \<Rightarrow> nat \<Rightarrow> nat \<Rightarrow> bool \<Rightarrow> loopVars \<Rightarrow> nat \<Rightarrow> 'd vstate
    \<Rightarrow> (loopVars \<times> 'd vstate) outcome" where
  "stepKeyed patch env parentElm oldCh newCh canMove v osv st =
     (case newStartVnode v of
        None \<Rightarrow> TypeError
      | Some nsv \<Rightarrow>
          obind (case oldKeyToIdx v of
                   Some m \<Rightarrow> Done m
                 | None \<Rightarrow> createKeyToOldIdx env st oldCh (oldStartIdx v) (oldEndIdx v)) (\<lambda>m.
          obind (if isDef (key (vnodes st nsv))
                 then Done (readKey m (keyString (envObjectString env) (key (vnodes st nsv))))
                 else obind (findIdxInOld env st nsv oldCh (oldStartIdx v) (oldEndIdx v))
                        (\<lambda>r. Done (case r of None \<Rightarrow> Absent | Some i \<Rightarrow> Index i)))
            (\<lambda>idxInOld.
          obind (placeKeyed patch env parentElm oldCh newCh canMove v osv nsv idxInOld st) (\<lambda>st3.
            Done (v\<lparr>oldKeyToIdx := Some m,
                    newStartIdx := newStartIdx v + 1,
                    newStartVnode := readArr (arrays st3 newCh) (newStartIdx v + 1)\<rparr>, st3)))))"

text \<open>One turn of the loop: the chain of \<open>if\<close> ... \<open>else if\<close> of the loop body.\<close>

definition ucStep :: "(nat \<Rightarrow> nat \<Rightarrow> nat option \<Rightarrow> int \<Rightarrow> 'd vstate \<Rightarrow> 'd vstate outcome)
    \<Rightarrow> 'd env \<Rightarrow> nat option \<Rightarrow> nat \<Rightarrow> nat \<Rightarrow> bool \<Rightarrow> loopVars \<Rightarrow> 'd vstate
    \<Rightarrow> (loopVars \<times> 'd vstate) outcome" where
  "ucStep patch env parentElm oldCh newCh canMove v st =
     (case oldStartVnode v of
        None \<Rightarrow>
          Done (v\<lparr>oldStartIdx := oldStartIdx v + 1,
                  oldStartVnode := readArr (arrays st oldCh) (oldStartIdx v + 1)\<rparr>, st)
      | Some osv \<Rightarrow>
     (case oldEndVnode v of
        None \<Rightarrow>
          Done (v\<lparr>oldEndIdx := oldEndIdx v - 1,
                  oldEndVnode := readArr (arrays st oldCh) (oldEndIdx v - 1)\<rparr>, st)
      | Some oev \<Rightarrow>
     obind (sameVnodeAt env st (Some osv) (newStartVnode v)) (\<lambda>sameStart.
     if sameStart then stepSameStart patch oldCh newCh v osv st
     else
     obind (sameVnodeAt env st (Some oev) (newEndVnode v)) (\<lambda>sameEnd.
     if sameEnd then stepSameEnd patch oldCh newCh v oev st
     else
     obind (sameVnodeAt env st (Some osv) (newEndVnode v)) (\<lambda>movedRight.
     if movedRight then stepMovedRight patch env parentElm oldCh newCh canMove v osv oev st
     else
     obind (sameVnodeAt env st (Some oev) (newStartVnode v)) (\<lambda>movedLeft.
     if movedLeft then stepMovedLeft patch env parentElm oldCh newCh canMove v osv oev st
     else stepKeyed patch env parentElm oldCh newCh canMove v osv st))))))"

definition span :: "loopVars \<Rightarrow> nat" where
  "span v = nat (oldEndIdx v - oldStartIdx v + 1) + nat (newEndIdx v - newStartIdx v + 1)"

definition narrower :: "loopVars \<Rightarrow> loopVars \<Rightarrow> bool" where
  "narrower v' v \<longleftrightarrow>
     oldStartIdx v \<le> oldStartIdx v' \<and> oldEndIdx v' \<le> oldEndIdx v \<and>
     newStartIdx v \<le> newStartIdx v' \<and> newEndIdx v' \<le> newEndIdx v \<and>
     (oldStartIdx v < oldStartIdx v' \<or> oldEndIdx v' < oldEndIdx v \<or>
      newStartIdx v < newStartIdx v' \<or> newEndIdx v' < newEndIdx v) \<and>
     oldStartIdx v' \<le> oldStartIdx v + 1 \<and> oldEndIdx v - 1 \<le> oldEndIdx v' \<and>
     newStartIdx v' \<le> newStartIdx v + 1 \<and> newEndIdx v - 1 \<le> newEndIdx v'"

lemma obind_Done: "obind m f = Done y \<longleftrightarrow> (\<exists>x. m = Done x \<and> f x = Done y)"
  by (cases m) (simp_all add: obind_def)

lemma stepSameStart_narrower:
  "stepSameStart patch oldCh newCh v osv st = Done (v', st') \<Longrightarrow> narrower v' v"
  by (auto simp: stepSameStart_def obind_Done narrower_def split: option.splits)

lemma stepSameEnd_narrower:
  "stepSameEnd patch oldCh newCh v oev st = Done (v', st') \<Longrightarrow> narrower v' v"
  by (auto simp: stepSameEnd_def obind_Done narrower_def split: option.splits)

lemma stepMovedRight_narrower:
  "stepMovedRight patch env parentElm oldCh newCh canMove v osv oev st = Done (v', st')
     \<Longrightarrow> narrower v' v"
  by (auto simp: stepMovedRight_def obind_Done narrower_def Let_def split: option.splits)

lemma stepMovedLeft_narrower:
  "stepMovedLeft patch env parentElm oldCh newCh canMove v osv oev st = Done (v', st')
     \<Longrightarrow> narrower v' v"
  by (auto simp: stepMovedLeft_def obind_Done narrower_def Let_def split: option.splits)

lemma stepKeyed_narrower:
  "stepKeyed patch env parentElm oldCh newCh canMove v osv st = Done (v', st')
     \<Longrightarrow> narrower v' v"
  by (auto simp: stepKeyed_def obind_Done narrower_def split: option.splits)

lemma ucStep_narrower:
  assumes "ucStep patch env parentElm oldCh newCh canMove v st = Done (v', st')"
  shows "narrower v' v"
proof (cases "oldStartVnode v")
  case None
  then show ?thesis using assms by (auto simp: ucStep_def narrower_def)
next
  case os: (Some osv)
  show ?thesis
  proof (cases "oldEndVnode v")
    case None
    then show ?thesis using assms os by (auto simp: ucStep_def narrower_def)
  next
    case oe: (Some oev)
    from assms show ?thesis
      unfolding ucStep_def os oe option.case
      by (auto simp: obind_Done split: if_splits
          dest: stepSameStart_narrower stepSameEnd_narrower stepMovedRight_narrower
            stepMovedLeft_narrower stepKeyed_narrower)
  qed
qed

lemma ucStep_span:
  assumes "ucStep patch env parentElm oldCh newCh canMove v st = Done (v', st')"
    and "oldStartIdx v \<le> oldEndIdx v" and "newStartIdx v \<le> newEndIdx v"
  shows "span v' < span v"
  using ucStep_narrower[OF assms(1)] assms(2,3) unfolding narrower_def span_def by linarith

function ucLoop :: "(nat \<Rightarrow> nat \<Rightarrow> nat option \<Rightarrow> int \<Rightarrow> 'd vstate \<Rightarrow> 'd vstate outcome)
    \<Rightarrow> 'd env \<Rightarrow> nat option \<Rightarrow> nat \<Rightarrow> nat \<Rightarrow> bool \<Rightarrow> loopVars \<Rightarrow> 'd vstate
    \<Rightarrow> (loopVars \<times> 'd vstate) outcome" where
  "ucLoop patch env parentElm oldCh newCh canMove v st =
     (if oldStartIdx v \<le> oldEndIdx v \<and> newStartIdx v \<le> newEndIdx v then
        (case ucStep patch env parentElm oldCh newCh canMove v st of
           Done (v', st') \<Rightarrow> ucLoop patch env parentElm oldCh newCh canMove v' st'
         | TypeError \<Rightarrow> TypeError
         | OutOfFuel \<Rightarrow> OutOfFuel)
      else Done (v, st))"
  by pat_completeness auto
termination
  by (relation "measure (\<lambda>(patch, env, parentElm, oldCh, newCh, canMove, v, st). span v)")
     (auto simp: ucStep_span)

declare ucLoop.simps [simp del]

text \<open>\<open>updateChildren\<close>: the initial values, the loop, and what is left over at the end.\<close>

definition updateChildren :: "(nat \<Rightarrow> nat \<Rightarrow> nat option \<Rightarrow> int \<Rightarrow> 'd vstate \<Rightarrow> 'd vstate outcome)
    \<Rightarrow> 'd env \<Rightarrow> nat option \<Rightarrow> nat \<Rightarrow> nat \<Rightarrow> bool \<Rightarrow> 'd vstate \<Rightarrow> 'd vstate outcome" where
  "updateChildren patch env parentElm oldCh newCh removeOnly st =
     (let v0 = \<lparr>oldStartIdx = 0, newStartIdx = 0,
                oldEndIdx = int (length (arrays st oldCh)) - 1,
                oldStartVnode = readArr (arrays st oldCh) 0,
                oldEndVnode = readArr (arrays st oldCh) (int (length (arrays st oldCh)) - 1),
                newEndIdx = int (length (arrays st newCh)) - 1,
                newStartVnode = readArr (arrays st newCh) 0,
                newEndVnode = readArr (arrays st newCh) (int (length (arrays st newCh)) - 1),
                oldKeyToIdx = None\<rparr>;
          canMove = \<not> removeOnly
      in obind (if \<not> envProduction env then checkDuplicateKeys env newCh st else Done st) (\<lambda>st0.
         obind (ucLoop patch env parentElm oldCh newCh canMove v0 st0) (\<lambda>(v, st1).
           if oldStartIdx v > oldEndIdx v then
             (let refElm = (case readArr (arrays st1 newCh) (newEndIdx v + 1) of
                              None \<Rightarrow> None
                            | Some r \<Rightarrow> elm (vnodes st1 r))
              in addVnodes env parentElm refElm newCh (newStartIdx v) (newEndIdx v) st1)
           else if newStartIdx v > newEndIdx v then
             removeVnodes env oldCh (oldStartIdx v) (oldEndIdx v) st1
           else Done st1)))"

subsection \<open>patchVnode\<close>

definition hookDefined :: "vnode \<Rightarrow> string \<Rightarrow> bool" where
  "hookDefined v name =
     (case data v of
        None \<Rightarrow> False
      | Some d \<Rightarrow> (case hook d of None \<Rightarrow> False | Some h \<Rightarrow> h name))"

definition callHook :: "string \<Rightarrow> nat \<Rightarrow> nat \<Rightarrow> 'd vstate \<Rightarrow> 'd vstate" where
  "callHook name old new st = st\<lparr>calls := calls st @ [DataHook name old new]\<rparr>"

text \<open>
  The part of \<open>patchVnode\<close> from \<open>const oldCh = oldVnode.children\<close> to the text and
  children of the node.  \<open>diff\<close> is \<open>updateChildren\<close> with the queue.
\<close>

definition patchChildren :: "(nat option \<Rightarrow> nat \<Rightarrow> nat \<Rightarrow> bool \<Rightarrow> 'd vstate \<Rightarrow> 'd vstate outcome)
    \<Rightarrow> 'd env \<Rightarrow> nat \<Rightarrow> nat \<Rightarrow> nat option \<Rightarrow> bool \<Rightarrow> 'd vstate \<Rightarrow> 'd vstate outcome" where
  "patchChildren diff env oldVnode vnode e removeOnly st =
     (let oldCh = children (vnodes st oldVnode);
          ch = children (vnodes st vnode)
      in if isUndef (vtext (vnodes st vnode)) then
           (case (oldCh, ch) of
              (Some och, Some nch) \<Rightarrow> if och \<noteq> nch then diff e och nch removeOnly st else Done st
            | (None, Some nch) \<Rightarrow>
                obind (if \<not> envProduction env then checkDuplicateKeys env nch st else Done st)
                  (\<lambda>st1.
                    (let st2 = (if isDef (vtext (vnodes st1 oldVnode))
                                then setTextContent env e (JStr []) st1 else st1)
                     in addVnodes env e None nch 0 (int (length (arrays st2 nch)) - 1) st2))
            | (Some och, None) \<Rightarrow> removeVnodes env och 0 (int (length (arrays st och)) - 1) st
            | (None, None) \<Rightarrow>
                Done (if isDef (vtext (vnodes st oldVnode))
                      then setTextContent env e (JStr []) st else st))
         else if \<not> strict_eq (vtext (vnodes st oldVnode)) (vtext (vnodes st vnode)) then
           Done (setTextContent env e (vtext (vnodes st vnode)) st)
         else Done st)"

text \<open>
  The start of \<open>patchVnode\<close>: a vnode that was rendered before and sits in an array is
  cloned, and the clone takes its place in the array and in the rest of the function.
\<close>

definition cloneIfReused :: "nat \<Rightarrow> nat option \<Rightarrow> int \<Rightarrow> 'd vstate \<Rightarrow> nat \<times> 'd vstate" where
  "cloneIfReused vnode ownerArray index st =
     (case ownerArray of
        Some oa \<Rightarrow>
          (if elm (vnodes st vnode) \<noteq> None then
             (let (c, t) = cloneVNode vnode st
              in (c, t\<lparr>arrays := (arrays t)(oa := writeArr (arrays t oa) index (Some c))\<rparr>))
           else (vnode, st))
      | None \<Rightarrow> (vnode, st))"

text \<open>The three places where \<open>patchVnode\<close> calls hooks.\<close>

definition invokePrepatch :: "nat \<Rightarrow> nat \<Rightarrow> 'd vstate \<Rightarrow> 'd vstate" where
  "invokePrepatch oldVnode vnode st =
     (if hookDefined (vnodes st vnode) ''prepatch''
      then callHook ''prepatch'' oldVnode vnode st else st)"

definition invokeUpdate :: "nat \<Rightarrow> 'd env \<Rightarrow> nat \<Rightarrow> nat \<Rightarrow> 'd vstate \<Rightarrow> 'd vstate outcome" where
  "invokeUpdate n env oldVnode vnode st =
     (if data (vnodes st vnode) \<noteq> None then
        obind (isPatchable n st vnode) (\<lambda>patchable.
          if patchable then
            (let t = st\<lparr>calls := calls st @
                       map (\<lambda>i. ModuleUpdate i oldVnode vnode) [0..<cbsUpdate env]\<rparr>
             in Done (if hookDefined (vnodes t vnode) ''update''
                      then callHook ''update'' oldVnode vnode t else t))
          else Done st)
      else Done st)"

definition invokePostpatch :: "nat \<Rightarrow> nat \<Rightarrow> 'd vstate \<Rightarrow> 'd vstate" where
  "invokePostpatch oldVnode vnode st =
     (if hookDefined (vnodes st vnode) ''postpatch''
      then callHook ''postpatch'' oldVnode vnode st else st)"

text \<open>
  \<open>patchVnode\<close>, with what it calls for the children as a parameter.  \<open>n\<close> is the depth to
  which \<open>isPatchable\<close> follows component instances.
\<close>

definition patchVnodeBody :: "(nat option \<Rightarrow> nat \<Rightarrow> nat \<Rightarrow> bool \<Rightarrow> 'd vstate \<Rightarrow> 'd vstate outcome)
    \<Rightarrow> nat \<Rightarrow> 'd env \<Rightarrow> nat \<Rightarrow> nat \<Rightarrow> nat option \<Rightarrow> int \<Rightarrow> bool \<Rightarrow> 'd vstate
    \<Rightarrow> 'd vstate outcome" where
  "patchVnodeBody diff n env oldVnode vnode0 ownerArray index removeOnly st =
     (if oldVnode = vnode0 then Done st
      else
        (case cloneIfReused vnode0 ownerArray index st of
           (vnode, st1) \<Rightarrow>
        (let e = elm (vnodes st1 oldVnode);
             st2 = setVnode vnode (\<lambda>r. r\<lparr>elm := e\<rparr>) st1
         in if isAsyncPlaceholder (vnodes st2 oldVnode) then
              (case asyncFactory (vnodes st2 vnode) of
                 None \<Rightarrow> TypeError
               | Some f \<Rightarrow>
                   (if isDef (factoryResolved st2 f)
                    then hydrate env (elm (vnodes st2 oldVnode)) vnode st2
                    else Done (setVnode vnode (\<lambda>r. r\<lparr>isAsyncPlaceholder := True\<rparr>) st2)))
            else if isStatic (vnodes st2 vnode) \<and> isStatic (vnodes st2 oldVnode) \<and>
                    strict_eq (key (vnodes st2 vnode)) (key (vnodes st2 oldVnode)) \<and>
                    (isCloned (vnodes st2 vnode) \<or> isOnce (vnodes st2 vnode)) then
              Done (setVnode vnode
                      (\<lambda>r. r\<lparr>componentInstance := componentInstance (vnodes st2 oldVnode)\<rparr>) st2)
            else
              obind (invokeUpdate n env oldVnode vnode (invokePrepatch oldVnode vnode st2))
                (\<lambda>st4. obind (patchChildren diff env oldVnode vnode e removeOnly st4)
                  (\<lambda>st5. Done (invokePostpatch oldVnode vnode st5))))))"

text \<open>
  \<open>patchVnode\<close> and \<open>updateChildren\<close> call each other; \<open>patchVnode n\<close> descends \<open>n\<close> levels
  of children lists, and is cut off below that.
\<close>

primrec patchVnode :: "nat \<Rightarrow> 'd env \<Rightarrow> nat \<Rightarrow> nat \<Rightarrow> nat option \<Rightarrow> int \<Rightarrow> bool \<Rightarrow> 'd vstate
    \<Rightarrow> 'd vstate outcome" where
  "patchVnode 0 env =
     patchVnodeBody (\<lambda>e och nch removeOnly st. OutOfFuel) 0 env"
| "patchVnode (Suc n) env =
     patchVnodeBody
       (updateChildren (\<lambda>old new oa i. patchVnode n env old new oa i False) env)
       (Suc n) env"

subsection \<open>Facts about patchVnode\<close>

text \<open>
  C10.  \<open>patchVnode\<close> called with the same reference for \<open>oldVnode\<close> and \<open>vnode\<close> returns
  with the state as it was: no vnode and no array is changed, the output tree is the
  same, and nothing is added to the record of node operations or to the record of calls
  of callbacks and hooks.  This holds at every depth \<open>n\<close>, and whatever \<open>ownerArray\<close>,
  \<open>index\<close> and \<open>removeOnly\<close> are.
\<close>

theorem patchVnode_same_reference:
  "patchVnode n env v v ownerArray index removeOnly st = Done st"
  by (cases n) (simp_all add: patchVnodeBody_def)


text \<open>
  What patching does to a node whose list of children is the list of the old node, or
  that has none as the old node has none.
\<close>

definition isHook :: "call \<Rightarrow> bool" where
  "isHook x = (case x of ModuleUpdate i a b \<Rightarrow> True | DataHook h a b \<Rightarrow> True | _ \<Rightarrow> False)"



lemma isHook_simps [simp]:
  "isHook (ModuleUpdate i a b)" "isHook (DataHook h a b)" "\<not> isHook (Warn k)"
  "\<not> isHook (CreateElm v p r)" "\<not> isHook (Hydrate e u)" "\<not> isHook (RemoveHook u)"
  "\<not> isHook (DestroyHook u)"
  by (simp_all add: isHook_def)











subsection \<open>Facts about updateChildren\<close>


lemma digitsOf_digit [simp]: "n < 10 \<Longrightarrow> digitsOf n = [''0123456789'' ! n]"
  by (subst digitsOf.simps) simp

lemma keyString_small [simp]:
  "keyString os (JNum 1) = ''1''" "keyString os (JNum 2) = ''2''" "keyString os (JNum 3) = ''3''"
  by (simp_all add: keyString_def numberString_def)



lemma sameVnode_keys_differ:
  "\<not> strict_eq (key a) (key b) \<Longrightarrow> sameVnode itt ferr a b = Normal False"
  by (simp add: sameVnode_def)




lemma readArr3 [simp]:
  "readArr [x, y, z] 0 = x" "readArr [x, y, z] 1 = y" "readArr [x, y, z] 2 = z"
  "readArr [x, y, z] 3 = None"
  by (simp_all add: readArr_def)

lemma insertBefore_fields [simp]:
  "vnodes (insertBefore env p e r s) = vnodes s" "arrays (insertBefore env p e r s) = arrays s"
  "factoryError (insertBefore env p e r s) = factoryError s"
  "calls (insertBefore env p e r s) = calls s"
  "ops (insertBefore env p e r s) = ops s @ [InsertBefore p e r]"
  by (simp_all add: insertBefore_def)

lemma sameVnodeAt_insertBefore [simp]:
  "sameVnodeAt env (insertBefore env' p e r s) x y = sameVnodeAt env s x y"
  by (simp add: sameVnodeAt_def split: option.splits)







text \<open>
  Three old \<open>li\<close> nodes with the keys 1, 2, 3 and the output nodes 10, 11, 12, and three
  new ones in the order 3, 1, 2.  The old and the new node with the key 2 have the same
  list of children, which holds one node; the others have none.
\<close>

definition liNode :: "int \<Rightarrow> nat option \<Rightarrow> nat option \<Rightarrow> vnode" where
  "liNode k ch e = newVNode (Some ''li'') (Some \<lparr>dataKey = JNum k, attrs = None, hook = None\<rparr>)
     ch JUndefined e None None None"









text \<open>
  Two examples of inherited names: a key \<open>'toString'\<close> is warned about the first time it is
  seen, and looking it up in the map of the old keys, where no old child has it, finds the
  function of \<open>Object.prototype\<close> instead of an index.
\<close>

lemma inherited_name_examples:
  "dupWarnings (keyString os) (\<lambda>r. liNode 0 None None\<lparr>key := JStr ''toString''\<rparr>) [Some 0] {} =
     Done [Warn (JStr ''toString'')]"
  "readKey (\<lambda>k. None) (keyString os (JStr ''toString'')) = Inherited"
  "readKey (\<lambda>k. None) (keyString os (JNum 12)) = Absent"
  by (simp_all add: isDef_def keyString_def numberString_def objectPrototype_def readKey_def
      obind_def digitsOf.simps[of 12])

section \<open>Reactive properties and arrays\<close>

text \<open>
  An array of the heap, as far as the array methods look at it: the Observer in its
  property \<open>__ob__\<close>, and its elements.
\<close>

record hobj =
  obOwn :: "nat option"
  elems :: "jsval list"

text \<open>The class \<open>Observer\<close>: \<open>value\<close>, \<open>dep\<close> and \<open>vmCount\<close>.\<close>

record observer =
  obValue :: nat
  obDep :: nat
  vmCount :: nat

text \<open>
  The variables that the accessors made by one call of \<open>defineReactive\<close> close over:
  \<open>val\<close>, \<open>getter\<close>, \<open>setter\<close>, \<open>childOb\<close> (an Observer, or \<open>false\<close> or \<open>undefined\<close>),
  \<open>dep\<close>, \<open>shallow\<close>, and whether a \<open>customSetter\<close> was given.  The getter and the setter
  that the property had before are functions of a state \<open>'u\<close> of their own, about which
  nothing is assumed.
\<close>

record 'u rprop =
  rpVal :: jsval
  rpGetter :: "('u \<Rightarrow> jsval) option"
  rpSetter :: "(jsval \<Rightarrow> 'u \<Rightarrow> 'u) option"
  rpChildOb :: "nat option"
  rpDep :: nat
  rpShallow :: bool
  rpCustomSetter :: bool

text \<open>
  The state: the dependency graph, the state of the user's accessors, the arrays, the
  Observers and the closures of the reactive properties.
\<close>

record 'u world =
  core :: state
  user :: 'u
  heap :: "nat \<Rightarrow> hobj"
  observers :: "nat \<Rightarrow> observer"
  rprops :: "nat \<Rightarrow> 'u rprop"

text \<open>
  The calls that a reactive setter and an array method make, in the order in which they
  make them.
\<close>

datatype rcall =
    CustomSetterCall
  | SetterCall jsval
  | OriginalCall string "jsval list"
  | ObserveCall jsval
  | NotifyCall nat

subsection \<open>The setter made by defineReactive\<close>

text \<open>
  The steps of \<open>reactiveSetter\<close> of the closure \<open>p\<close>.  \<open>getter.call(obj)\<close> or \<open>val\<close>; the
  test whether the value has changed (\<open>newVal !== newVal\<close> holds of \<open>NaN\<close> only);
  \<open>setter.call(obj, newVal)\<close> or \<open>val = newVal\<close>; and
  \<open>childOb = !shallow && observe(newVal)\<close>.  \<open>observe\<close> is a parameter here, as are the
  build mode, \<open>config.async\<close> and \<open>update\<close> of the watchers, which \<open>notify\<close> needs.
\<close>

definition currentValue :: "nat \<Rightarrow> 'u world \<Rightarrow> jsval" where
  "currentValue p w =
     (case rpGetter (rprops w p) of Some g \<Rightarrow> g (user w) | None \<Rightarrow> rpVal (rprops w p))"

definition unchanged :: "jsval \<Rightarrow> jsval \<Rightarrow> bool" where
  "unchanged newVal val0 \<longleftrightarrow>
     strict_eq newVal val0 \<or> (\<not> strict_eq newVal newVal \<and> \<not> strict_eq val0 val0)"

definition storeNew :: "nat \<Rightarrow> jsval \<Rightarrow> 'u world \<Rightarrow> 'u world \<times> rcall list" where
  "storeNew p newVal w =
     (case rpSetter (rprops w p) of
        Some f \<Rightarrow> (w\<lparr>user := f newVal (user w)\<rparr>, [SetterCall newVal])
      | None \<Rightarrow> (w\<lparr>rprops := (rprops w)(p := (rprops w p)\<lparr>rpVal := newVal\<rparr>)\<rparr>, []))"

definition attachChild :: "(jsval \<Rightarrow> 'u world \<Rightarrow> 'u world \<times> nat option) \<Rightarrow> nat \<Rightarrow> jsval
    \<Rightarrow> 'u world \<Rightarrow> 'u world \<times> rcall list" where
  "attachChild observeFn p newVal w =
     (if rpShallow (rprops w p)
      then (w\<lparr>rprops := (rprops w)(p := (rprops w p)\<lparr>rpChildOb := None\<rparr>)\<rparr>, [])
      else (case observeFn newVal w of
              (w', ob) \<Rightarrow>
                (w'\<lparr>rprops := (rprops w')(p := (rprops w' p)\<lparr>rpChildOb := ob\<rparr>)\<rparr>,
                 [ObserveCall newVal])))"

definition notifyDep :: "bool \<Rightarrow> bool \<Rightarrow> (nat \<Rightarrow> state \<Rightarrow> state \<times> unit completion) \<Rightarrow> nat
    \<Rightarrow> 'u world \<Rightarrow> 'u world \<times> rcall list \<times> unit completion" where
  "notifyDep production async upd d w =
     (case notify production async upd d (core w) of
        (s', called, r) \<Rightarrow> (w\<lparr>core := s'\<rparr>, [NotifyCall d], r))"

definition reactiveSetter :: "bool \<Rightarrow> bool \<Rightarrow> (nat \<Rightarrow> state \<Rightarrow> state \<times> unit completion)
    \<Rightarrow> (jsval \<Rightarrow> 'u world \<Rightarrow> 'u world \<times> nat option)
    \<Rightarrow> nat \<Rightarrow> jsval \<Rightarrow> 'u world \<Rightarrow> 'u world \<times> rcall list \<times> unit completion" where
  "reactiveSetter production async upd observeFn p newVal w =
     (if unchanged newVal (currentValue p w) then (w, [], Normal ())
      else
        (let tr1 = (if \<not> production \<and> rpCustomSetter (rprops w p) then [CustomSetterCall] else [])
         in if rpGetter (rprops w p) \<noteq> None \<and> rpSetter (rprops w p) = None
            then (w, tr1, Normal ())
            else
              (case storeNew p newVal w of (w2, tr2) \<Rightarrow>
              (case attachChild observeFn p newVal w2 of (w3, tr3) \<Rightarrow>
              (case notifyDep production async upd (rpDep (rprops w p)) w3 of (w4, tr4, r) \<Rightarrow>
                 (w4, tr1 @ tr2 @ tr3 @ tr4, r))))))"

subsection \<open>The intercepted array methods\<close>

datatype arrayMethod = Push | Pop | Shift | Unshift | Splice | Sort | Reverse

definition methodsToPatch :: "arrayMethod list" where
  "methodsToPatch = [Push, Pop, Shift, Unshift, Splice, Sort, Reverse]"

definition methodName :: "arrayMethod \<Rightarrow> string" where
  "methodName m = (case m of Push \<Rightarrow> ''push'' | Pop \<Rightarrow> ''pop'' | Shift \<Rightarrow> ''shift''
     | Unshift \<Rightarrow> ''unshift'' | Splice \<Rightarrow> ''splice'' | Sort \<Rightarrow> ''sort'' | Reverse \<Rightarrow> ''reverse'')"

text \<open>\<open>Observer.observeArray\<close>: \<open>observe(items[i])\<close> for every item, first to last.\<close>

fun observeArrayWith :: "(jsval \<Rightarrow> 'u world \<Rightarrow> 'u world \<times> nat option) \<Rightarrow> jsval list \<Rightarrow> 'u world
    \<Rightarrow> 'u world \<times> rcall list" where
  "observeArrayWith observeFn [] w = (w, [])"
| "observeArrayWith observeFn (x # xs) w =
     (case observeArrayWith observeFn xs (fst (observeFn x w)) of
        (w', tr) \<Rightarrow> (w', ObserveCall x # tr))"

text \<open>The \<open>switch\<close> of \<open>mutator\<close>; \<open>None\<close> is \<open>inserted\<close> left \<open>undefined\<close>.\<close>

definition insertedArgs :: "arrayMethod \<Rightarrow> jsval list \<Rightarrow> jsval list option" where
  "insertedArgs m args =
     (case m of Push \<Rightarrow> Some args | Unshift \<Rightarrow> Some args | Splice \<Rightarrow> Some (drop 2 args)
      | _ \<Rightarrow> None)"

text \<open>
  \<open>mutator\<close> for the method \<open>m\<close>, called on the array \<open>this\<close> with \<open>args\<close>.  \<open>original\<close> is
  the method of \<open>Array.prototype\<close>: from the arguments and the elements to the new
  elements and the result, or an exception, which is taken to leave the array as it was.
  Without an \<open>__ob__\<close> on the array, \<open>ob.observeArray\<close> or \<open>ob.dep\<close> throws a TypeError,
  after the array has been changed.
\<close>

definition mutator :: "bool \<Rightarrow> bool \<Rightarrow> (nat \<Rightarrow> state \<Rightarrow> state \<times> unit completion)
    \<Rightarrow> (jsval \<Rightarrow> 'u world \<Rightarrow> 'u world \<times> nat option)
    \<Rightarrow> (arrayMethod \<Rightarrow> jsval list \<Rightarrow> jsval list \<Rightarrow> (jsval list \<times> jsval) completion)
    \<Rightarrow> arrayMethod \<Rightarrow> nat \<Rightarrow> jsval list \<Rightarrow> 'u world
    \<Rightarrow> 'u world \<times> rcall list \<times> jsval completion" where
  "mutator production async upd observeFn original m this args w =
     (case original m args (elems (heap w this)) of
        Throw \<Rightarrow> (w, [OriginalCall (methodName m) args], Throw)
      | Normal (es, result) \<Rightarrow>
          (let w1 = w\<lparr>heap := (heap w)(this := (heap w this)\<lparr>elems := es\<rparr>)\<rparr>
           in case obOwn (heap w1 this) of
                None \<Rightarrow> (w1, [OriginalCall (methodName m) args], Throw)
              | Some ob \<Rightarrow>
                  (case (case insertedArgs m args of
                           Some inserted \<Rightarrow> observeArrayWith observeFn inserted w1
                         | None \<Rightarrow> (w1, [])) of
                     (w2, tr2) \<Rightarrow>
                  (case notifyDep production async upd (obDep (observers w2 ob)) w2 of
                     (w3, tr3, r) \<Rightarrow>
                       (w3, [OriginalCall (methodName m) args] @ tr2 @ tr3,
                        case r of Normal u \<Rightarrow> Normal result | Throw \<Rightarrow> Throw)))))"

section \<open>Properties of reactive properties and arrays\<close>

lemma notifyDep_frame:
  "rprops (fst (notifyDep production async upd d w)) = rprops w"
  "heap (fst (notifyDep production async upd d w)) = heap w"
  "user (fst (notifyDep production async upd d w)) = user w"
  "observers (fst (notifyDep production async upd d w)) = observers w"
  "core (fst (notifyDep production async upd d w)) = fst (notify production async upd d (core w))"
  "fst (snd (notifyDep production async upd d w)) = [NotifyCall d]"
  "snd (snd (notifyDep production async upd d w)) = snd (snd (notify production async upd d (core w)))"
  by (simp_all add: notifyDep_def split: prod.splits)

lemma observeArrayWith_calls:
  "snd (observeArrayWith observeFn xs w) = map ObserveCall xs"
  by (induction xs arbitrary: w) (simp_all add: case_prod_unfold)

lemma observeArrayWith_fold:
  "fst (observeArrayWith observeFn xs w) = fold (\<lambda>x. fst \<circ> observeFn x) xs w"
  by (induction xs arbitrary: w) (simp_all add: case_prod_unfold)

text \<open>Example worlds: watcher 1 reads the property 0, whose dependency node is 0.\<close>

definition noObserve :: "jsval \<Rightarrow> int world \<Rightarrow> int world \<times> nat option" where
  "noObserve v w = (w, None)"

definition plainProp :: "int rprop" where
  "plainProp = \<lparr>rpVal = JNum 1, rpGetter = None, rpSetter = None, rpChildOb = None, rpDep = 0,
     rpShallow = False, rpCustomSetter = False\<rparr>"

definition emptyObj :: hobj where
  "emptyObj = \<lparr>obOwn = None, elems = []\<rparr>"

definition dataWorld :: "int world" where
  "dataWorld = \<lparr>core = subscribed, user = 0, heap = (\<lambda>r. emptyObj),
     observers = (\<lambda>ob. \<lparr>obValue = 0, obDep = 0, vmCount = 0\<rparr>),
     rprops = (\<lambda>p. plainProp)\<rparr>"

definition readOnlyWorld :: "int world" where
  "readOnlyWorld = dataWorld\<lparr>rprops := (\<lambda>p. plainProp\<lparr>rpGetter := Some JNum\<rparr>)\<rparr>"

definition computedWorld :: "int world" where
  "computedWorld = dataWorld\<lparr>user := 5,
     rprops := (\<lambda>p. plainProp\<lparr>rpGetter := Some JNum, rpCustomSetter := True\<rparr>)\<rparr>"

text \<open>
  C2.  A property whose original accessor has a getter and no setter: assigning 2 where
  the getter gives 0 is an assignment of another value, and nothing is stored and no
  \<open>observe\<close> and no \<open>notify\<close> is called.
\<close>

theorem reactiveSetter_readonly_counterexample:
  "\<not> unchanged (JNum 2) (currentValue 0 readOnlyWorld) \<and>
   reactiveSetter False True quiet noObserve 0 (JNum 2) readOnlyWorld =
     (readOnlyWorld, [], Normal ()) \<and>
   currentValue 0 readOnlyWorld = JNum 0"
  by (simp add: unchanged_def currentValue_def readOnlyWorld_def dataWorld_def plainProp_def
      reactiveSetter_def strict_eq_def)

text \<open>
  C2, as amended.  Assigning a value identical to the current one, or \<open>NaN\<close> where the
  current value is \<open>NaN\<close>, changes nothing and makes no call.  Assigning another value to a
  property that had a getter and no setter before changes nothing either, and calls at
  most the \<open>customSetter\<close>.  Assigning another value to any other property gives exactly
  this: the new value is passed to the original setter when there is one and is put in
  \<open>val\<close> otherwise; \<open>observe\<close> is then run on the new value, unless the property is shallow,
  and what it returns becomes \<open>childOb\<close>; \<open>notify\<close> of the dependency node of the property is
  called last, once, and the result is the state it leaves and the way it ends.  The
  calls are made in this order, after the \<open>customSetter\<close> outside production builds when
  there is one.  So where there is no original setter, and \<open>observe\<close> does not run or
  leaves the closure alone, \<open>val\<close> is the new value at the end.
\<close>

theorem reactiveSetter_stores_and_notifies:
  "(unchanged newVal (currentValue p w) \<longrightarrow>
      reactiveSetter production async upd observeFn p newVal w = (w, [], Normal ())) \<and>
   (\<not> unchanged newVal (currentValue p w) \<and>
    rpGetter (rprops w p) \<noteq> None \<and> rpSetter (rprops w p) = None \<longrightarrow>
      reactiveSetter production async upd observeFn p newVal w =
        (w, if \<not> production \<and> rpCustomSetter (rprops w p) then [CustomSetterCall] else [],
         Normal ())) \<and>
   (\<not> unchanged newVal (currentValue p w) \<and>
    (rpGetter (rprops w p) = None \<or> rpSetter (rprops w p) \<noteq> None) \<longrightarrow>
      (let c = rprops w p;
           stored = (case rpSetter c of
                       None \<Rightarrow> w\<lparr>rprops := (rprops w)(p := c\<lparr>rpVal := newVal\<rparr>)\<rparr>
                     | Some f \<Rightarrow> w\<lparr>user := f newVal (user w)\<rparr>);
           observed = (if rpShallow c then (stored, None) else observeFn newVal stored);
           attached = (fst observed)\<lparr>rprops := (rprops (fst observed))
                        (p := (rprops (fst observed) p)\<lparr>rpChildOb := snd observed\<rparr>)\<rparr>;
           notified = notify production async upd (rpDep c) (core attached);
           result = reactiveSetter production async upd observeFn p newVal w
       in result =
            (attached\<lparr>core := fst notified\<rparr>,
             (if \<not> production \<and> rpCustomSetter c then [CustomSetterCall] else []) @
             (if rpSetter c = None then [] else [SetterCall newVal]) @
             (if rpShallow c then [] else [ObserveCall newVal]) @ [NotifyCall (rpDep c)],
             snd (snd notified)) \<and>
          (rpSetter c = None \<and>
           (rpShallow c \<or> rprops (fst (observeFn newVal stored)) p = rprops stored p) \<longrightarrow>
             rpVal (rprops (fst result) p) = newVal)))"
proof (intro conjI impI)
  assume "unchanged newVal (currentValue p w)"
  then show "reactiveSetter production async upd observeFn p newVal w = (w, [], Normal ())"
    by (simp add: reactiveSetter_def)
next
  assume "\<not> unchanged newVal (currentValue p w) \<and>
    rpGetter (rprops w p) \<noteq> None \<and> rpSetter (rprops w p) = None"
  then show "reactiveSetter production async upd observeFn p newVal w =
        (w, if \<not> production \<and> rpCustomSetter (rprops w p) then [CustomSetterCall] else [],
         Normal ())"
    by (simp add: reactiveSetter_def Let_def)
next
  assume a: "\<not> unchanged newVal (currentValue p w) \<and>
    (rpGetter (rprops w p) = None \<or> rpSetter (rprops w p) \<noteq> None)"
  define c where "c = rprops w p"
  define stored where "stored = (case rpSetter c of
                       None \<Rightarrow> w\<lparr>rprops := (rprops w)(p := c\<lparr>rpVal := newVal\<rparr>)\<rparr>
                     | Some f \<Rightarrow> w\<lparr>user := f newVal (user w)\<rparr>)"
  define observed where
    "observed = (if rpShallow c then (stored, None) else observeFn newVal stored)"
  define attached where "attached = (fst observed)\<lparr>rprops := (rprops (fst observed))
                        (p := (rprops (fst observed) p)\<lparr>rpChildOb := snd observed\<rparr>)\<rparr>"
  define notified where "notified = notify production async upd (rpDep c) (core attached)"
  have st: "storeNew p newVal w =
      (stored, if rpSetter c = None then [] else [SetterCall newVal])"
    by (simp add: storeNew_def stored_def c_def split: option.splits)
  have sh: "rpShallow (rprops stored p) = rpShallow c"
    by (simp add: stored_def c_def split: option.splits)
  have at: "attachChild observeFn p newVal stored =
      (attached, if rpShallow c then [] else [ObserveCall newVal])"
    by (simp add: attachChild_def attached_def observed_def sh split: prod.splits)
  have nt: "notifyDep production async upd (rpDep c) attached =
      (attached\<lparr>core := fst notified\<rparr>, [NotifyCall (rpDep c)], snd (snd notified))"
    by (simp add: notifyDep_def notified_def split: prod.splits)
  have r: "reactiveSetter production async upd observeFn p newVal w =
      (attached\<lparr>core := fst notified\<rparr>,
       (if \<not> production \<and> rpCustomSetter c then [CustomSetterCall] else []) @
       (if rpSetter c = None then [] else [SetterCall newVal]) @
       (if rpShallow c then [] else [ObserveCall newVal]) @ [NotifyCall (rpDep c)],
       snd (snd notified))"
    using a by (auto simp: reactiveSetter_def Let_def st at nt c_def[symmetric])
  have v: "rpVal (rprops (attached\<lparr>core := fst notified\<rparr>) p) = newVal"
    if "rpSetter c = None"
      "rpShallow c \<or> rprops (fst (observeFn newVal stored)) p = rprops stored p"
  proof -
    have "rpVal (rprops stored p) = newVal" using that(1) by (simp add: stored_def)
    moreover have "rprops (fst observed) p = rprops stored p"
      using that(2) by (auto simp: observed_def)
    ultimately show ?thesis by (simp add: attached_def)
  qed
  show "let c = rprops w p;
           stored = (case rpSetter c of
                       None \<Rightarrow> w\<lparr>rprops := (rprops w)(p := c\<lparr>rpVal := newVal\<rparr>)\<rparr>
                     | Some f \<Rightarrow> w\<lparr>user := f newVal (user w)\<rparr>);
           observed = (if rpShallow c then (stored, None) else observeFn newVal stored);
           attached = (fst observed)\<lparr>rprops := (rprops (fst observed))
                        (p := (rprops (fst observed) p)\<lparr>rpChildOb := snd observed\<rparr>)\<rparr>;
           notified = notify production async upd (rpDep c) (core attached);
           result = reactiveSetter production async upd observeFn p newVal w
       in result =
            (attached\<lparr>core := fst notified\<rparr>,
             (if \<not> production \<and> rpCustomSetter c then [CustomSetterCall] else []) @
             (if rpSetter c = None then [] else [SetterCall newVal]) @
             (if rpShallow c then [] else [ObserveCall newVal]) @ [NotifyCall (rpDep c)],
             snd (snd notified)) \<and>
          (rpSetter c = None \<and>
           (rpShallow c \<or> rprops (fst (observeFn newVal stored)) p = rprops stored p) \<longrightarrow>
             rpVal (rprops (fst result) p) = newVal)"
    unfolding Let_def c_def[symmetric] stored_def[symmetric] observed_def[symmetric]
      attached_def[symmetric] notified_def[symmetric]
    using r v by simp
qed

text \<open>
  An example of each case: the property 0 holds 1 and the watcher 1 has read it; the same
  property defined shallow; and the property with a getter and no setter.
\<close>

definition shallowWorld :: "int world" where
  "shallowWorld = dataWorld\<lparr>rprops := (\<lambda>p. plainProp\<lparr>rpShallow := True\<rparr>)\<rparr>"

theorem reactiveSetter_stores_and_notifies_witness:
  "unchanged (JNum 1) (currentValue 0 dataWorld) \<and>
   reactiveSetter False False quiet noObserve 0 (JNum 1) dataWorld = (dataWorld, [], Normal ()) \<and>
   \<not> unchanged (JNum 2) (currentValue 0 dataWorld) \<and>
   rpGetter (rprops dataWorld 0) = None \<and>
   fst (snd (reactiveSetter False False quiet noObserve 0 (JNum 2) dataWorld)) =
     [ObserveCall (JNum 2), NotifyCall 0] \<and>
   currentValue 0 (fst (reactiveSetter False False quiet noObserve 0 (JNum 2) dataWorld)) = JNum 2 \<and>
   \<not> unchanged (JNum 2) (currentValue 0 shallowWorld) \<and>
   fst (snd (reactiveSetter False False quiet noObserve 0 (JNum 2) shallowWorld)) =
     [NotifyCall 0] \<and>
   currentValue 0 (fst (reactiveSetter False False quiet noObserve 0 (JNum 2) shallowWorld)) =
     JNum 2 \<and>
   \<not> unchanged (JNum 2) (currentValue 0 readOnlyWorld) \<and>
   reactiveSetter False False quiet noObserve 0 (JNum 2) readOnlyWorld =
     (readOnlyWorld, [], Normal ())"
proof -
  have u: "unchanged (JNum 1) (currentValue 0 dataWorld)"
    "\<not> unchanged (JNum 2) (currentValue 0 dataWorld)"
    "rpGetter (rprops dataWorld 0) = None" "rpSetter (rprops dataWorld 0) = None"
    "\<not> rpShallow (rprops dataWorld 0)" "\<not> rpCustomSetter (rprops dataWorld 0)"
    "rpDep (rprops dataWorld 0) = 0"
    by (simp_all add: unchanged_def currentValue_def dataWorld_def plainProp_def strict_eq_def)
  have s: "\<not> unchanged (JNum 2) (currentValue 0 shallowWorld)"
    "rpGetter (rprops shallowWorld 0) = None" "rpSetter (rprops shallowWorld 0) = None"
    "rpShallow (rprops shallowWorld 0)" "\<not> rpCustomSetter (rprops shallowWorld 0)"
    "rpDep (rprops shallowWorld 0) = 0"
    by (simp_all add: unchanged_def currentValue_def shallowWorld_def dataWorld_def plainProp_def
        strict_eq_def)
  have ro: "\<not> unchanged (JNum 2) (currentValue 0 readOnlyWorld)"
    "rpGetter (rprops readOnlyWorld 0) \<noteq> None" "rpSetter (rprops readOnlyWorld 0) = None"
    "\<not> rpCustomSetter (rprops readOnlyWorld 0)"
    by (simp_all add: unchanged_def currentValue_def readOnlyWorld_def dataWorld_def plainProp_def
        strict_eq_def)
  have g: "rpGetter (rprops (fst (reactiveSetter False False quiet noObserve 0 (JNum 2) w)) 0) = None"
    if "w = dataWorld \<or> w = shallowWorld" for w
    using that u(2) s(1)
    by (auto simp: reactiveSetter_def storeNew_def attachChild_def noObserve_def notifyDep_def
        currentValue_def shallowWorld_def dataWorld_def plainProp_def split: prod.splits)
  show ?thesis
    using reactiveSetter_stores_and_notifies[of "JNum 1" 0 dataWorld False False quiet noObserve]
      reactiveSetter_stores_and_notifies[of "JNum 2" 0 dataWorld False False quiet noObserve]
      reactiveSetter_stores_and_notifies[of "JNum 2" 0 shallowWorld False False quiet noObserve]
      reactiveSetter_stores_and_notifies[of "JNum 2" 0 readOnlyWorld False False quiet noObserve]
      u s ro g[of dataWorld] g[of shallowWorld]
    by (simp add: Let_def noObserve_def currentValue_def)
qed

text \<open>
  C9.  When the property had a getter and no setter before \<open>defineReactive\<close> wrapped it, an
  assignment of a changed value returns before anything is stored: the state is the one
  before the call, \<open>observe\<close> and \<open>notify\<close> are not called, and the only call made is the
  \<open>customSetter\<close>, outside production builds and when one was given.
\<close>

theorem reactiveSetter_getter_only:
  assumes "rpGetter (rprops w p) \<noteq> None" and "rpSetter (rprops w p) = None"
    and "\<not> unchanged newVal (currentValue p w)"
  shows "reactiveSetter production async upd observeFn p newVal w =
     (w, if \<not> production \<and> rpCustomSetter (rprops w p) then [CustomSetterCall] else [],
      Normal ())"
  using assms by (simp add: reactiveSetter_def Let_def)

theorem reactiveSetter_getter_only_witness:
  "rpGetter (rprops computedWorld 0) \<noteq> None \<and> rpSetter (rprops computedWorld 0) = None \<and>
   \<not> unchanged (JNum 6) (currentValue 0 computedWorld) \<and>
   reactiveSetter False True quiet noObserve 0 (JNum 6) computedWorld =
     (computedWorld, [CustomSetterCall], Normal ()) \<and>
   reactiveSetter True True quiet noObserve 0 (JNum 6) computedWorld =
     (computedWorld, [], Normal ())"
proof -
  have u: "rpGetter (rprops computedWorld 0) \<noteq> None" "rpSetter (rprops computedWorld 0) = None"
    "\<not> unchanged (JNum 6) (currentValue 0 computedWorld)"
    "rpCustomSetter (rprops computedWorld 0)"
    by (simp_all add: unchanged_def currentValue_def computedWorld_def dataWorld_def
        plainProp_def strict_eq_def)
  show ?thesis
    using reactiveSetter_getter_only[OF u(1,2,3), of False True quiet noObserve]
      reactiveSetter_getter_only[OF u(1,2,3), of True True quiet noObserve] u
    by simp
qed

lemma notifyLoop_quiet: "snd (snd (notifyLoop quiet ws s)) = Normal ()"
  by (induction ws arbitrary: s) (simp_all add: quiet_def case_prod_unfold)

text \<open>
  An example of the original methods: \<open>push\<close> appends the arguments and returns the new
  length, \<open>pop\<close> removes the last element and returns it, \<open>reverse\<close> reverses in place; the
  other methods are not used by the example and leave the array as it is.
\<close>

definition arrayProto :: "arrayMethod \<Rightarrow> jsval list \<Rightarrow> jsval list \<Rightarrow> (jsval list \<times> jsval) completion"
  where
  "arrayProto m args es =
     (case m of
        Push \<Rightarrow> Normal (es @ args, JNum (int (length (es @ args))))
      | Pop \<Rightarrow> Normal (butlast es, if es = [] then JUndefined else last es)
      | Reverse \<Rightarrow> Normal (rev es, JRef 0)
      | _ \<Rightarrow> Normal (es, JUndefined))"

definition listWorld :: "int world" where
  "listWorld = dataWorld\<lparr>
     heap := (\<lambda>r. emptyObj\<lparr>obOwn := Some 0, elems := [JNum 1]\<rparr>)\<rparr>"

text \<open>
  C5.  When the original method returns and the array has its Observer, the interceptor
  of each of the seven methods makes these calls in this order: the original method with
  the arguments it was given, \<open>observe\<close> on each inserted element from first to last (all
  arguments of \<open>push\<close> and \<open>unshift\<close>, the arguments of \<open>splice\<close> from index 2 on, none for
  the other methods), and \<open>notify\<close> of the Observer's dependency node, once.  The elements
  of the array are those the original method left, and unless an \<open>update\<close> throws the
  result is the result of the original method.
\<close>

theorem mutator_intercepts:
  assumes "original m args (elems (heap w this)) = Normal (es, result)"
    and "obOwn (heap w this) = Some ob"
  shows "let inserted = (if m = Push \<or> m = Unshift then args
                         else if m = Splice then drop 2 args else []);
             changed = w\<lparr>heap := (heap w)(this := (heap w this)\<lparr>elems := es\<rparr>)\<rparr>;
             observed = fold (\<lambda>x. fst \<circ> observeFn x) inserted changed;
             d = obDep (observers observed ob);
             r = mutator production async upd observeFn original m this args w
         in m \<in> set methodsToPatch \<and>
            fst (snd r) = OriginalCall (methodName m) args # map ObserveCall inserted @ [NotifyCall d] \<and>
            heap (fst r) = heap observed \<and>
            core (fst r) = fst (notify production async upd d (core observed)) \<and>
            snd (snd r) = (case snd (snd (notify production async upd d (core observed))) of
                             Normal u \<Rightarrow> Normal result | Throw \<Rightarrow> Throw)"
proof -
  let ?ch = "w\<lparr>heap := (heap w)(this := (heap w this)\<lparr>elems := es\<rparr>)\<rparr>"
  let ?ins = "if m = Push \<or> m = Unshift then args else if m = Splice then drop 2 args else []"
  let ?oa = "case insertedArgs m args of
                Some inserted \<Rightarrow> observeArrayWith observeFn inserted ?ch | None \<Rightarrow> (?ch, [])"
  have i1: "fst ?oa = fold (\<lambda>x. fst \<circ> observeFn x) ?ins ?ch"
    by (cases m) (simp_all add: insertedArgs_def observeArrayWith_fold)
  have i2: "snd ?oa = map ObserveCall ?ins"
    by (cases m) (simp_all add: insertedArgs_def observeArrayWith_calls)
  let ?nt = "notifyDep production async upd (obDep (observers (fst ?oa) ob)) (fst ?oa)"
  have r: "mutator production async upd observeFn original m this args w =
      (fst ?nt, [OriginalCall (methodName m) args] @ snd ?oa @ fst (snd ?nt),
       case snd (snd ?nt) of Normal u \<Rightarrow> Normal result | Throw \<Rightarrow> Throw)"
    using assms by (simp add: mutator_def Let_def split: prod.splits)
  have m: "m \<in> set methodsToPatch"
    by (cases m) (simp_all add: methodsToPatch_def)
  show ?thesis
    unfolding Let_def r using m by (simp add: notifyDep_frame i1 i2 del: fold_simps)
qed

theorem mutator_intercepts_witness:
  "arrayProto Push [JNum 7, JRef 3] (elems (heap listWorld 0)) = Normal ([JNum 1, JNum 7, JRef 3], JNum 3) \<and>
   obOwn (heap listWorld 0) = Some 0 \<and>
   fst (snd (mutator False False quiet noObserve arrayProto Push 0 [JNum 7, JRef 3] listWorld)) =
     [OriginalCall ''push'' [JNum 7, JRef 3], ObserveCall (JNum 7), ObserveCall (JRef 3),
      NotifyCall 0] \<and>
   elems (heap (fst (mutator False False quiet noObserve arrayProto Push 0 [JNum 7, JRef 3]
     listWorld)) 0) = [JNum 1, JNum 7, JRef 3] \<and>
   snd (snd (mutator False False quiet noObserve arrayProto Push 0 [JNum 7, JRef 3] listWorld)) =
     Normal (JNum 3)"
proof -
  have u: "arrayProto Push [JNum 7, JRef 3] (elems (heap listWorld 0)) =
      Normal ([JNum 1, JNum 7, JRef 3], JNum 3)"
    "obOwn (heap listWorld 0) = Some 0"
    by (simp_all add: arrayProto_def listWorld_def dataWorld_def emptyObj_def)
  have q: "snd (snd (notify False False quiet 0 (core listWorld))) = Normal ()"
    by (simp add: notify_def notifyLoop_quiet)
  have o: "obDep (observers listWorld 0) = 0"
    by (simp add: listWorld_def dataWorld_def)
  show ?thesis
    using mutator_intercepts[where original = arrayProto and m = Push and args = "[JNum 7, JRef 3]"
        and w = listWorld and this = 0 and ob = 0 and observeFn = noObserve
        and production = False and async = False and upd = quiet, OF u] u q o
    by (simp add: Let_def noObserve_def methodName_def comp_def)
qed

end
